theory Spec2Isabelle
  imports Complex_Main
begin

section \<open>Values of the host library\<close>

text \<open>
  The embedding classes build circuits of the host circuit library. What the classes use
  of it is modelled here: errors, parameter expressions, parameter vectors, gates and the
  circuit that collects instructions.
\<close>

datatype error =
    QiskitError string
  | CircuitError
  | IndexError
  | ValueError
  | ZeroDivisionError

definition bind_err :: "error + 'a \<Rightarrow> ('a \<Rightarrow> error + 'b) \<Rightarrow> error + 'b" where
  "bind_err m f = (case m of Inl e \<Rightarrow> Inl e | Inr x \<Rightarrow> f x)"

text \<open>
  A gate parameter is a number, an element \<open>x[i]\<close> of a named parameter vector, or a
  number times an expression (as \<open>np.pi * x[i]\<close>).
\<close>

datatype pexpr =
    Num real
  | Elem string nat
  | Times real pexpr

text \<open>\<open>ParameterVector(name, length=n)\<close> holds one element for each index of \<open>range(n)\<close>.\<close>

definition range_py :: "int \<Rightarrow> nat list" where
  "range_py n = [0..<nat n]"

definition ParameterVector :: "string \<Rightarrow> int \<Rightarrow> pexpr list" where
  "ParameterVector nm n = map (Elem nm) (range_py n)"

text \<open>Indexing with a non-negative index; out of range raises \<open>IndexError\<close>.\<close>

definition getitem :: "'a list \<Rightarrow> nat \<Rightarrow> error + 'a" where
  "getitem xs i = (if i < length xs then Inr (xs ! i) else Inl IndexError)"

text \<open>A gate has a name, the number of qubits it acts on, and its parameters.\<close>

record 'p gate =
  gname :: string
  gnum_qubits :: nat
  params :: "'p list"

definition RXGate :: "'p \<Rightarrow> 'p gate" where
  "RXGate theta = \<lparr>gname = ''rx'', gnum_qubits = 1, params = [theta]\<rparr>"

definition RYGate :: "'p \<Rightarrow> 'p gate" where
  "RYGate theta = \<lparr>gname = ''ry'', gnum_qubits = 1, params = [theta]\<rparr>"

definition RZGate :: "'p \<Rightarrow> 'p gate" where
  "RZGate theta = \<lparr>gname = ''rz'', gnum_qubits = 1, params = [theta]\<rparr>"

text \<open>
  A circuit is a qubit count and the instructions appended so far, in order; an
  instruction is a gate and the qubits it acts on. A negative qubit count is refused, and
  so is an instruction on a qubit the circuit does not have.
\<close>

record circuit =
  qc_num_qubits :: nat
  data :: "(pexpr gate \<times> nat list) list"

definition QuantumCircuit :: "int \<Rightarrow> error + circuit" where
  "QuantumCircuit n =
     (if n < 0 then Inl CircuitError else Inr \<lparr>qc_num_qubits = nat n, data = []\<rparr>)"

definition qc_append :: "circuit \<Rightarrow> pexpr gate \<Rightarrow> nat list \<Rightarrow> error + circuit" where
  "qc_append qc g qargs =
     (if length qargs = gnum_qubits g \<and> list_all (\<lambda>q. q < qc_num_qubits qc) qargs
      then Inr (qc\<lparr>data := data qc @ [(g, qargs)]\<rparr>)
      else Inl CircuitError)"

definition qc_rx :: "circuit \<Rightarrow> pexpr \<Rightarrow> nat \<Rightarrow> error + circuit" where
  "qc_rx qc theta q = qc_append qc (RXGate theta) [q]"

definition qc_ry :: "circuit \<Rightarrow> pexpr \<Rightarrow> nat \<Rightarrow> error + circuit" where
  "qc_ry qc theta q = qc_append qc (RYGate theta) [q]"

definition qc_rz :: "circuit \<Rightarrow> pexpr \<Rightarrow> nat \<Rightarrow> error + circuit" where
  "qc_rz qc theta q = qc_append qc (RZGate theta) [q]"

section \<open>BasisEmbedding\<close>

record basis_embedding =
  basis_num_qubits :: int
  basis_params :: "pexpr list"
  basis_circuit :: circuit

text \<open>The loop of \<open>create_circuit\<close>: one \<open>rx(np.pi * params[qubit], qubit)\<close> per qubit.\<close>

fun basis_loop :: "pexpr list \<Rightarrow> nat list \<Rightarrow> circuit \<Rightarrow> error + circuit" where
  "basis_loop ps [] qc = Inr qc"
| "basis_loop ps (qubit # rest) qc =
     bind_err (getitem ps qubit) (\<lambda>p.
     bind_err (qc_rx qc (Times pi p) qubit) (\<lambda>qc'.
     basis_loop ps rest qc'))"

definition basis_create_circuit :: "int \<Rightarrow> pexpr list \<Rightarrow> error + circuit" where
  "basis_create_circuit n ps =
     bind_err (QuantumCircuit n) (\<lambda>qc. basis_loop ps (range_py n) qc)"

definition BasisEmbedding :: "int \<Rightarrow> error + basis_embedding" where
  "BasisEmbedding n =
     (if n \<le> 0 then Inl (QiskitError ''num_qubits must be a positive integer.'')
      else let ps = ParameterVector ''x'' n in
        bind_err (basis_create_circuit n ps) (\<lambda>qc.
        Inr \<lparr>basis_num_qubits = n, basis_params = ps, basis_circuit = qc\<rparr>))"

definition basis_get_circuit :: "basis_embedding \<Rightarrow> circuit" where
  "basis_get_circuit e = basis_circuit e"


section \<open>Python floats\<close>

text \<open>
  A finite Python float is an IEEE double. It is modelled as the real number it denotes,
  and an arithmetic operation returns the exact result rounded to 53 significant bits, to
  the nearest such number, a tie going to the even significand. Signed zeros are not
  told apart; infinities and NaN are not values of this model, nor are overflow and
  subnormal results, which the operations modelled with it (a sum with \<open>np.pi\<close>, a
  remainder by \<open>2 * np.pi\<close>) do not produce on finite doubles.
\<close>

definition round_half_even :: "real \<Rightarrow> int" where
  "round_half_even q =
     (let f = \<lfloor>q\<rfloor>; d = q - of_int f
      in if d < 1 / 2 then f
         else if 1 / 2 < d then f + 1
         else if even f then f else f + 1)"

text \<open>The exponent of the last of the 53 bits of \<open>x\<close>.\<close>

definition float_exponent :: "real \<Rightarrow> int" where
  "float_exponent x = \<lfloor>log 2 \<bar>x\<bar>\<rfloor> - 52"

definition round_float :: "real \<Rightarrow> real" where
  "round_float x =
     (if x = 0 then 0
      else of_int (round_half_even (x / 2 powr of_int (float_exponent x)))
             * 2 powr of_int (float_exponent x))"

definition float_add :: "real \<Rightarrow> real \<Rightarrow> real" where
  "float_add x y = round_float (x + y)"

definition float_sub :: "real \<Rightarrow> real \<Rightarrow> real" where
  "float_sub x y = round_float (x - y)"

definition float_mul :: "real \<Rightarrow> real \<Rightarrow> real" where
  "float_mul x y = round_float (x * y)"

text \<open>\<open>np.pi\<close> is the double nearest to \<open>\<pi>\<close>, 3.141592653589793.\<close>

definition np_pi :: real where
  "np_pi = 884279719003555 / 2 ^ 48"

text \<open>
  C's \<open>fmod\<close>, which is exact: the remainder of the division truncated towards zero.
\<close>

definition float_fmod :: "real \<Rightarrow> real \<Rightarrow> real" where
  "float_fmod x y = x - y * of_int (if 0 \<le> x / y then \<lfloor>x / y\<rfloor> else \<lceil>x / y\<rceil>)"

text \<open>
  Python's \<open>vx % wx\<close> on floats: a zero divisor raises; otherwise the result is
  \<open>fmod(vx, wx)\<close>, to which \<open>wx\<close> is added (a rounded sum) when it is not zero and its
  sign differs from the sign of \<open>wx\<close>.
\<close>

definition py_mod :: "real \<Rightarrow> real \<Rightarrow> error + real" where
  "py_mod vx wx =
     (if wx = 0 then Inl ZeroDivisionError
      else let m = float_fmod vx wx
           in Inr (if m \<noteq> 0
                   then (if (wx < 0) \<noteq> (m < 0) then float_add m wx else m)
                   else 0))"

text \<open>
  The matrices of the custom gates are built with numpy's functions, whose values, and
  any overflow to infinity, belong to the platform. So \<open>_define\<close> is modelled over an
  arbitrary type of floats with its operations: the conversion of an integer literal,
  product, sum, difference, negation, and numpy's \<open>cos\<close>, \<open>sin\<close>, \<open>cosh\<close>,
  \<open>sinh\<close>.
\<close>

record 'f arith =
  of_literal :: "int \<Rightarrow> 'f"
  f_mul :: "'f \<Rightarrow> 'f \<Rightarrow> 'f"
  f_add :: "'f \<Rightarrow> 'f \<Rightarrow> 'f"
  f_sub :: "'f \<Rightarrow> 'f \<Rightarrow> 'f"
  f_neg :: "'f \<Rightarrow> 'f"
  np_cos :: "'f \<Rightarrow> 'f"
  np_sin :: "'f \<Rightarrow> 'f"
  np_cosh :: "'f \<Rightarrow> 'f"
  np_sinh :: "'f \<Rightarrow> 'f"

text \<open>
  The operations on finite doubles, with numpy's functions taken as correctly rounded.
\<close>

definition double_arith :: "real arith" where
  "double_arith =
     \<lparr>of_literal = (\<lambda>n. round_float (of_int n)), f_mul = float_mul, f_add = float_add,
      f_sub = float_sub,
      f_neg = uminus,
      np_cos = (\<lambda>x. round_float (cos x)), np_sin = (\<lambda>x. round_float (sin x)),
      np_cosh = (\<lambda>x. round_float (cosh x)), np_sinh = (\<lambda>x. round_float (sinh x))\<rparr>"

section \<open>Custom gates: DisplacementGate and SqueezingGate\<close>

text \<open>
  \<open>unitary(M, q)\<close> of the host circuit, on one target qubit: the host refuses, with
  \<open>ValueError\<close>, a matrix that fails its unitarity test (\<open>is_unitary\<close>, the host's
  own) or that is not square of dimension \<open>2 ^ k\<close>; the gate built from an accepted
  matrix acts on \<open>k\<close> qubits and is appended. The appended gate does not record its
  matrix.
\<close>

fun ilog2 :: "nat \<Rightarrow> nat" where
  "ilog2 n = (if n < 2 then 0 else Suc (ilog2 (n div 2)))"

definition qc_unitary ::
  "('f list list \<Rightarrow> bool) \<Rightarrow> circuit \<Rightarrow> 'f list list \<Rightarrow> nat \<Rightarrow> error + circuit" where
  "qc_unitary is_unitary qc M q =
     (if \<not> is_unitary M then Inl ValueError
      else if \<not> list_all (\<lambda>row. length row = length M) M \<or> 2 ^ ilog2 (length M) \<noteq> length M
      then Inl ValueError
      else qc_append qc \<lparr>gname = ''unitary'', gnum_qubits = ilog2 (length M), params = []\<rparr> [q])"

definition DisplacementGate :: "'p \<Rightarrow> 'p \<Rightarrow> 'p gate" where
  "DisplacementGate a phi = \<lparr>gname = ''D'', gnum_qubits = 1, params = [a, phi]\<rparr>"

text \<open>The matrix \<open>D_matrix\<close> that \<open>_define\<close> builds from the two parameters, as a list of rows.\<close>

definition D_matrix :: "'f arith \<Rightarrow> 'f \<Rightarrow> 'f \<Rightarrow> 'f list list" where
  "D_matrix ar a phi =
     [[of_literal ar 1, of_literal ar 0, of_literal ar 0],
      [f_mul ar (f_mul ar (of_literal ar 2) a) (np_cos ar phi), of_literal ar 1, of_literal ar 0],
      [f_mul ar (f_mul ar (of_literal ar 2) a) (np_sin ar phi), of_literal ar 0, of_literal ar 1]]"

text \<open>
  \<open>_define\<close>: unpacking \<open>a, phi = self.params\<close> needs exactly two parameters; the matrix
  is handed to \<open>unitary\<close> on qubit 0 of a fresh one-qubit circuit, which becomes the
  definition of the gate.
\<close>

definition displacement_define ::
  "'f arith \<Rightarrow> ('f list list \<Rightarrow> bool) \<Rightarrow> 'f gate \<Rightarrow> error + circuit" where
  "displacement_define ar is_unitary g =
     (case params g of
        [a, phi] \<Rightarrow>
          bind_err (QuantumCircuit 1) (\<lambda>q.
          qc_unitary is_unitary q (D_matrix ar a phi) 0)
      | _ \<Rightarrow> Inl ValueError)"

text \<open>\<open>inverse\<close>, on float parameters: \<open>new_phi = (phi + np.pi) % (2 * np.pi)\<close>.\<close>

definition displacement_inverse :: "real gate \<Rightarrow> error + real gate" where
  "displacement_inverse g =
     (case params g of
        [a, phi] \<Rightarrow>
          bind_err (py_mod (float_add phi np_pi) (float_mul 2 np_pi)) (\<lambda>new_phi.
          Inr (DisplacementGate a new_phi))
      | _ \<Rightarrow> Inl ValueError)"

definition SqueezingGate :: "'p \<Rightarrow> 'p \<Rightarrow> 'p gate" where
  "SqueezingGate r phi = \<lparr>gname = ''S'', gnum_qubits = 1, params = [r, phi]\<rparr>"

text \<open>The matrix \<open>M\<close> that the squeezing gate's \<open>_define\<close> builds.\<close>

definition S_matrix :: "'f arith \<Rightarrow> 'f \<Rightarrow> 'f \<Rightarrow> 'f list list" where
  "S_matrix ar r phi =
     (let cosh_r = np_cosh ar r; sinh_r = np_sinh ar r in
      [[of_literal ar 1, of_literal ar 0, of_literal ar 0],
       [of_literal ar 0, f_sub ar cosh_r (f_mul ar (np_cos ar phi) sinh_r),
          f_mul ar (f_neg ar (np_sin ar phi)) sinh_r],
       [of_literal ar 0, f_mul ar (f_neg ar (np_sin ar phi)) sinh_r,
          f_add ar cosh_r (f_mul ar (np_cos ar phi) sinh_r)]])"

definition squeezing_define ::
  "'f arith \<Rightarrow> ('f list list \<Rightarrow> bool) \<Rightarrow> 'f gate \<Rightarrow> error + circuit" where
  "squeezing_define ar is_unitary g =
     (case params g of
        [r, phi] \<Rightarrow>
          bind_err (QuantumCircuit 1) (\<lambda>q.
          qc_unitary is_unitary q (S_matrix ar r phi) 0)
      | _ \<Rightarrow> Inl ValueError)"

definition squeezing_inverse :: "real gate \<Rightarrow> error + real gate" where
  "squeezing_inverse g =
     (case params g of
        [r, phi] \<Rightarrow>
          bind_err (py_mod (float_add phi np_pi) (float_mul 2 np_pi)) (\<lambda>new_phi.
          Inr (SqueezingGate r new_phi))
      | _ \<Rightarrow> Inl ValueError)"

text \<open>Column \<open>j\<close> of a matrix given as a list of rows.\<close>

definition column :: "'a list list \<Rightarrow> nat \<Rightarrow> 'a list" where
  "column M j = map (\<lambda>row. row ! j) M"

text \<open>The remainder of mathematics, \<open>x mod w\<close> for a positive \<open>w\<close>, without rounding.\<close>

definition floor_mod :: "real \<Rightarrow> real \<Rightarrow> real" where
  "floor_mod x w = x - w * of_int \<lfloor>x / w\<rfloor>"

text \<open>A real number is a double of the model when rounding leaves it unchanged.\<close>

definition representable :: "real \<Rightarrow> bool" where
  "representable x = (round_float x = x)"

section \<open>DisplacementEmbedding and SqueezingEmbedding\<close>

record displacement_embedding =
  disp_num_qubits :: int
  disp_amplitude :: bool
  disp_parameters :: "pexpr list"

text \<open>The constructor stores its arguments and allocates the parameter vector; it has no check.\<close>

definition DisplacementEmbedding :: "int \<Rightarrow> bool \<Rightarrow> error + displacement_embedding" where
  "DisplacementEmbedding n amp =
     Inr \<lparr>disp_num_qubits = n, disp_amplitude = amp,
          disp_parameters = ParameterVector ''x'' n\<rparr>"

fun displacement_loop :: "bool \<Rightarrow> pexpr list \<Rightarrow> nat list \<Rightarrow> circuit \<Rightarrow> error + circuit" where
  "displacement_loop amp ps [] qc = Inr qc"
| "displacement_loop amp ps (i # rest) qc =
     bind_err
       (if amp
        then bind_err (getitem ps i) (\<lambda>x. Inr (x, Num 0.1))
        else bind_err (getitem ps i) (\<lambda>x. Inr (Num 0.1, x)))
       (\<lambda>(amplitude, phase).
     bind_err (qc_append qc (DisplacementGate amplitude phase) [i]) (\<lambda>qc'.
     displacement_loop amp ps rest qc'))"

definition displacement_create_circuit :: "displacement_embedding \<Rightarrow> error + circuit" where
  "displacement_create_circuit e =
     bind_err (QuantumCircuit (disp_num_qubits e)) (\<lambda>qc.
     displacement_loop (disp_amplitude e) (disp_parameters e)
       (range_py (disp_num_qubits e)) qc)"

record squeezing_embedding =
  sq_num_qubits :: int
  sq_amplitude :: bool
  sq_parameters :: "pexpr list"

definition SqueezingEmbedding :: "int \<Rightarrow> bool \<Rightarrow> error + squeezing_embedding" where
  "SqueezingEmbedding n amp =
     Inr \<lparr>sq_num_qubits = n, sq_amplitude = amp,
          sq_parameters = ParameterVector ''x'' n\<rparr>"

fun squeezing_loop :: "bool \<Rightarrow> pexpr list \<Rightarrow> nat list \<Rightarrow> circuit \<Rightarrow> error + circuit" where
  "squeezing_loop amp ps [] qc = Inr qc"
| "squeezing_loop amp ps (i # rest) qc =
     bind_err
       (if amp
        then bind_err (getitem ps i) (\<lambda>x. Inr (x, Num 0.1))
        else bind_err (getitem ps i) (\<lambda>x. Inr (Num 0.1, x)))
       (\<lambda>(r, phi).
     bind_err (qc_append qc (SqueezingGate r phi) [i]) (\<lambda>qc'.
     squeezing_loop amp ps rest qc'))"

definition squeezing_create_circuit :: "squeezing_embedding \<Rightarrow> error + circuit" where
  "squeezing_create_circuit e =
     bind_err (QuantumCircuit (sq_num_qubits e)) (\<lambda>qc.
     squeezing_loop (sq_amplitude e) (sq_parameters e)
       (range_py (sq_num_qubits e)) qc)"

section \<open>AngleEmbedding\<close>

text \<open>
  The constructor inspects the dynamic type of \<open>gate_sequence\<close>, so its argument is a
  Python value: a string, an integer, \<open>None\<close> or a list of values.
\<close>

datatype pyval =
    PStr string
  | PInt int
  | PNone
  | PList "pyval list"

fun is_str :: "pyval \<Rightarrow> bool" where
  "is_str (PStr s) = True"
| "is_str v = False"

definition valid_gates :: "pyval set" where
  "valid_gates = {PStr ''RY'', PStr ''RZ'', PStr ''RX''}"

record angle_embedding =
  angle_gate_sequence :: "pyval list"
  angle_num_qubits :: int
  angle_repeat_parameters :: bool

fun AngleEmbedding :: "pyval \<Rightarrow> int \<Rightarrow> bool \<Rightarrow> error + angle_embedding" where
  "AngleEmbedding (PList gate_sequence) n rep =
     (if \<not> list_all is_str gate_sequence
      then Inl (QiskitError ''gate_sequence must be a list of strings.'')
      else if n \<le> 0
      then Inl (QiskitError ''num_qubits must be a positive integer.'')
      else if list_ex (\<lambda>gate. gate \<notin> valid_gates) gate_sequence
      then Inl (QiskitError ''gate_sequence contains invalid gates.'')
      else Inr \<lparr>angle_gate_sequence = gate_sequence, angle_num_qubits = n,
                angle_repeat_parameters = rep\<rparr>)"
| "AngleEmbedding v n rep = Inl (QiskitError ''gate_sequence must be a list of strings.'')"

text \<open>
  The inner loop of \<open>_layer_sequence\<close> over the qubits of one layer; the state is the
  running \<open>index\<close> and the circuit. A gate name other than RY, RZ, RX emits nothing.
\<close>

fun angle_qubits ::
  "bool \<Rightarrow> pexpr list \<Rightarrow> pyval \<Rightarrow> nat list \<Rightarrow> nat \<times> circuit \<Rightarrow> error + (nat \<times> circuit)" where
  "angle_qubits rep x gate [] st = Inr st"
| "angle_qubits rep x gate (j # rest) (index, qc) =
     bind_err (if rep then getitem x j else getitem x index) (\<lambda>param.
     bind_err
       (if gate = PStr ''RY'' then qc_ry qc param j
        else if gate = PStr ''RZ'' then qc_rz qc param j
        else if gate = PStr ''RX'' then qc_rx qc param j
        else Inr qc) (\<lambda>qc'.
     angle_qubits rep x gate rest (if \<not> rep then index + 1 else index, qc')))"

fun angle_layers ::
  "bool \<Rightarrow> pexpr list \<Rightarrow> int \<Rightarrow> pyval list \<Rightarrow> nat \<times> circuit \<Rightarrow> error + (nat \<times> circuit)" where
  "angle_layers rep x n [] st = Inr st"
| "angle_layers rep x n (gate # rest) st =
     bind_err (angle_qubits rep x gate (range_py n) st) (\<lambda>st'.
     angle_layers rep x n rest st')"

definition angle_layer_sequence :: "angle_embedding \<Rightarrow> error + circuit" where
  "angle_layer_sequence e =
     (let layers = int (length (angle_gate_sequence e));
          x_length = (if angle_repeat_parameters e then angle_num_qubits e
                      else angle_num_qubits e * layers);
          x = ParameterVector ''x'' x_length
      in bind_err (QuantumCircuit (angle_num_qubits e)) (\<lambda>circuit.
         bind_err (angle_layers (angle_repeat_parameters e) x (angle_num_qubits e)
                     (angle_gate_sequence e) (0, circuit)) (\<lambda>(index, circuit').
         Inr circuit')))"

section \<open>Vocabulary of the properties\<close>

text \<open>
  The rotation gate that a layer of kind \<open>k\<close> is expected to emit, in the words of the
  specification: RX, RY and RZ layers emit the rotation about the X, Y and Z axis.
\<close>

definition rotation :: "string \<Rightarrow> pexpr \<Rightarrow> pexpr gate" where
  "rotation k p = \<lparr>gname = (if k = ''RX'' then ''rx'' else if k = ''RY'' then ''ry'' else ''rz''),
                  gnum_qubits = 1, params = [p]\<rparr>"

text \<open>
  The parameter-vector indices a circuit refers to, in instruction order: the specification
  speaks of the indices used by the gates of a circuit.
\<close>

fun elem_index :: "pexpr \<Rightarrow> nat list" where
  "elem_index (Num r) = []"
| "elem_index (Elem nm i) = [i]"
| "elem_index (Times c p) = elem_index p"

definition param_indices :: "circuit \<Rightarrow> nat list" where
  "param_indices c = concat (map (\<lambda>(g, qargs). concat (map elem_index (params g))) (data c))"

text \<open>
  The specification's valid gate sequence, without its non-emptiness: a list whose every
  element is one of the strings RY, RZ, RX.
\<close>

fun list_of_valid_gates :: "pyval \<Rightarrow> bool" where
  "list_of_valid_gates (PList gate_sequence) = list_all (\<lambda>gate. gate \<in> valid_gates) gate_sequence"
| "list_of_valid_gates v = False"

section \<open>Facts about the host operations\<close>

lemma bind_err_Inr [simp]: "bind_err (Inr x) f = f x"
  by (simp add: bind_err_def)

lemma bind_err_Inl [simp]: "bind_err (Inl e) f = Inl e"
  by (simp add: bind_err_def)

lemma length_ParameterVector [simp]: "length (ParameterVector nm n) = nat n"
  by (simp add: ParameterVector_def range_py_def)

lemma getitem_ParameterVector:
  "i < nat n \<Longrightarrow> getitem (ParameterVector nm n) i = Inr (Elem nm i)"
  by (simp add: getitem_def ParameterVector_def range_py_def)

lemma qc_append_one:
  "gnum_qubits g = 1 \<Longrightarrow> q < qc_num_qubits qc \<Longrightarrow>
   qc_append qc g [q] = Inr (qc\<lparr>data := data qc @ [(g, [q])]\<rparr>)"
  by (simp add: qc_append_def)

section \<open>BasisEmbedding: the circuit\<close>

lemma basis_loop_data:
  "\<forall>q \<in> set qs. q < nat n \<Longrightarrow> qc_num_qubits qc = nat n \<Longrightarrow>
   basis_loop (ParameterVector nm n) qs qc =
     Inr (qc\<lparr>data := data qc @ map (\<lambda>i. (RXGate (Times pi (Elem nm i)), [i])) qs\<rparr>)"
proof (induction qs arbitrary: qc)
  case Nil
  show ?case by simp
next
  case (Cons q qs)
  have q: "q < nat n" using Cons.prems(1) by simp
  let ?qc = "qc\<lparr>data := data qc @ [(RXGate (Times pi (Elem nm q)), [q])]\<rparr>"
  have step: "qc_rx qc (Times pi (Elem nm q)) q = Inr ?qc"
    unfolding qc_rx_def using q Cons.prems(2) by (simp add: qc_append_one RXGate_def)
  have rest: "basis_loop (ParameterVector nm n) qs ?qc =
      Inr (?qc\<lparr>data := data ?qc @ map (\<lambda>i. (RXGate (Times pi (Elem nm i)), [i])) qs\<rparr>)"
    using Cons.prems by (intro Cons.IH) simp_all
  show ?case
    by (simp add: getitem_ParameterVector [OF q] step rest)
qed

text \<open>
  C2. For every positive \<open>num_qubits\<close> the Basis scheme is constructed without error and
  its circuit holds exactly \<open>num_qubits\<close> instructions; the \<open>i\<close>-th one is the
  single-qubit X-rotation on qubit \<open>i\<close> with parameter \<open>\<pi> * x[i]\<close>.
\<close>

theorem basis_circuit_shape:
  assumes "0 < n"
  shows "\<exists>e. BasisEmbedding n = Inr e
           \<and> qc_num_qubits (basis_get_circuit e) = nat n
           \<and> length (data (basis_get_circuit e)) = nat n
           \<and> data (basis_get_circuit e) =
               map (\<lambda>i. (\<lparr>gname = ''rx'', gnum_qubits = 1, params = [Times pi (Elem ''x'' i)]\<rparr>, [i]))
                 [0..<nat n]"
proof -
  let ?qc0 = "\<lparr>qc_num_qubits = nat n, data = []\<rparr>"
  have "basis_loop (ParameterVector ''x'' n) (range_py n) ?qc0 =
      Inr (?qc0\<lparr>data := data ?qc0 @ map (\<lambda>i. (RXGate (Times pi (Elem ''x'' i)), [i])) (range_py n)\<rparr>)"
    by (rule basis_loop_data) (simp_all add: range_py_def)
  then have "basis_create_circuit n (ParameterVector ''x'' n) =
      Inr \<lparr>qc_num_qubits = nat n,
           data = map (\<lambda>i. (RXGate (Times pi (Elem ''x'' i)), [i])) (range_py n)\<rparr>"
    using assms by (simp add: basis_create_circuit_def QuantumCircuit_def)
  then show ?thesis
    using assms
    by (simp add: BasisEmbedding_def basis_get_circuit_def range_py_def RXGate_def)
qed

theorem basis_circuit_shape_witness:
  "(0::int) < 2 \<and> (\<exists>e. BasisEmbedding 2 = Inr e
     \<and> data (basis_get_circuit e) =
         [(\<lparr>gname = ''rx'', gnum_qubits = 1, params = [Times pi (Elem ''x'' 0)]\<rparr>, [0]),
          (\<lparr>gname = ''rx'', gnum_qubits = 1, params = [Times pi (Elem ''x'' 1)]\<rparr>, [1])])"
proof -
  have h: "(0::int) < 2" by simp
  have u: "[0..<nat 2] = [0, 1]" by (simp add: upt_rec)
  show ?thesis using basis_circuit_shape [OF h] unfolding u by auto
qed

section \<open>Python floats: rounding\<close>

lemma round_half_even_of_int: "round_half_even (of_int n) = n"
  by (simp add: round_half_even_def)

lemma round_half_even_le:
  assumes "q \<le> of_int W"
  shows "round_half_even q \<le> W"
proof (cases "q = of_int W")
  case True
  then show ?thesis by (simp add: round_half_even_of_int)
next
  case False
  with assms have "q < of_int W" by simp
  then have "\<lfloor>q\<rfloor> < W" by (simp add: floor_less_iff)
  then have "\<lfloor>q\<rfloor> + 1 \<le> W" by simp
  then show ?thesis by (auto simp add: round_half_even_def Let_def)
qed

lemma round_half_even_nonneg:
  assumes "0 \<le> q"
  shows "0 \<le> round_half_even q"
proof -
  have "0 \<le> \<lfloor>q\<rfloor>" using assms by simp
  then show ?thesis by (auto simp add: round_half_even_def Let_def)
qed

lemma float_exponent_eq:
  assumes "x \<noteq> 0" and "2 powr (of_int e + 52) \<le> \<bar>x\<bar>" and "\<bar>x\<bar> < 2 powr (of_int e + 53)"
  shows "float_exponent x = e"
proof -
  have pos: "0 < \<bar>x\<bar>" using assms(1) by simp
  have "\<lfloor>log 2 \<bar>x\<bar>\<rfloor> = e + 52"
    using assms(2,3) floor_log_eq_powr_iff [OF pos, of 2 "e + 52"]
    by (simp add: add.commute add.left_commute)
  then show ?thesis by (simp add: float_exponent_def)
qed

lemma two_powr_shift:
  "(2::real) powr (of_int (- int k) + numeral n) = 2 ^ numeral n / 2 ^ k"
proof -
  have "(2::real) powr (of_int (- int k) + numeral n) =
      2 powr (of_int (- int k)) * 2 powr (numeral n)"
    by (rule powr_add)
  also have "(2::real) powr (of_int (- int k)) = 1 / 2 ^ k"
    by (simp add: powr_minus powr_realpow inverse_eq_divide)
  also have "(2::real) powr (numeral n) = 2 ^ numeral n"
    by (rule powr_numeral) simp
  finally show ?thesis by simp
qed

lemma round_float_at:
  assumes "x \<noteq> 0" and "2 ^ 52 \<le> \<bar>x\<bar> * 2 ^ k" and "\<bar>x\<bar> * 2 ^ k < 2 ^ 53"
  shows "round_float x = of_int (round_half_even (x * 2 ^ k)) / 2 ^ k"
proof -
  have p: "(2::real) powr (of_int (- int k)) = 1 / 2 ^ k"
    by (simp add: powr_minus powr_realpow inverse_eq_divide)
  have lo: "2 powr (of_int (- int k) + 52) \<le> \<bar>x\<bar>"
    unfolding two_powr_shift using assms(2) by (simp add: field_simps)
  have hi: "\<bar>x\<bar> < 2 powr (of_int (- int k) + 53)"
    unfolding two_powr_shift using assms(3) by (simp add: field_simps)
  have e: "float_exponent x = - int k"
    by (rule float_exponent_eq [OF assms(1) lo hi])
  show ?thesis
    using assms(1) unfolding round_float_def e p by simp
qed

lemma round_float_0 [simp]: "round_float 0 = 0"
  by (simp add: round_float_def)

lemma round_float_np_pi: "round_float np_pi = np_pi"
proof -
  have "round_float np_pi = of_int (round_half_even (np_pi * 2 ^ 51)) / 2 ^ 51"
    by (rule round_float_at) (simp_all add: np_pi_def)
  also have "np_pi * 2 ^ 51 = of_int 7074237752028440"
    by (simp add: np_pi_def)
  finally show ?thesis
    by (simp only: round_half_even_of_int) (simp add: np_pi_def)
qed

lemma round_float_two_pi: "round_float (2 * np_pi) = 2 * np_pi"
proof -
  have "round_float (2 * np_pi) = of_int (round_half_even (2 * np_pi * 2 ^ 50)) / 2 ^ 50"
    by (rule round_float_at) (simp_all add: np_pi_def)
  also have "2 * np_pi * 2 ^ 50 = of_int 7074237752028440"
    by (simp add: np_pi_def)
  finally show ?thesis
    by (simp only: round_half_even_of_int) (simp add: np_pi_def)
qed

lemma float_mul_two_pi: "float_mul 2 np_pi = 2 * np_pi"
  by (simp add: float_mul_def round_float_two_pi)

lemma two_pi_pos: "0 < 2 * np_pi"
  by (simp add: np_pi_def)

lemma floor_mod_bounds:
  assumes "0 < w"
  shows "0 \<le> floor_mod x w" and "floor_mod x w < w"
proof -
  have "of_int \<lfloor>x / w\<rfloor> \<le> x / w" by (rule of_int_floor_le)
  then have "of_int \<lfloor>x / w\<rfloor> * w \<le> x"
    using assms by (simp only: pos_le_divide_eq)
  then show "0 \<le> floor_mod x w" by (simp add: floor_mod_def mult.commute)
  have "x / w < of_int \<lfloor>x / w\<rfloor> + 1" by linarith
  then have "x < (of_int \<lfloor>x / w\<rfloor> + 1) * w"
    using assms by (simp only: pos_divide_less_eq)
  then show "floor_mod x w < w" by (simp add: floor_mod_def algebra_simps)
qed

lemma py_mod_pos:
  assumes "0 < w"
  shows "py_mod s w = Inr (if 0 \<le> s then floor_mod s w else round_float (floor_mod s w))"
proof (cases "0 \<le> s")
  case True
  then have q: "0 \<le> s / w" using assms by simp
  have m: "float_fmod s w = floor_mod s w"
    using q by (simp add: float_fmod_def floor_mod_def)
  have "0 \<le> floor_mod s w" by (rule floor_mod_bounds [OF assms])
  then have "\<not> floor_mod s w < 0" by simp
  with True assms show ?thesis by (simp add: py_mod_def m Let_def)
next
  case False
  then have q: "\<not> 0 \<le> s / w" using assms by (simp add: divide_less_0_iff not_le)
  show ?thesis
  proof (cases "s / w = of_int \<lfloor>s / w\<rfloor>")
    case True
    then have c: "\<lceil>s / w\<rceil> = \<lfloor>s / w\<rfloor>" by (simp add: ceiling_altdef)
    have "s = w * of_int \<lfloor>s / w\<rfloor>"
      using True assms by (simp add: field_simps)
    then have z: "floor_mod s w = 0" by (simp add: floor_mod_def)
    have m: "float_fmod s w = 0"
      using q z by (simp add: float_fmod_def c floor_mod_def)
    show ?thesis using False assms by (simp add: py_mod_def m z Let_def)
  next
    case nonint: False
    then have c: "\<lceil>s / w\<rceil> = \<lfloor>s / w\<rfloor> + 1" by (simp add: ceiling_altdef)
    have m: "float_fmod s w = floor_mod s w - w"
      using q by (simp add: float_fmod_def c floor_mod_def algebra_simps)
    have neg: "floor_mod s w - w < 0"
      using floor_mod_bounds(2) [OF assms, of s] by simp
    show ?thesis
      using False assms neg by (simp add: py_mod_def m Let_def float_add_def)
  qed
qed

lemma float_exponent_le:
  assumes "0 < y" and "y \<le> 2 * np_pi"
  shows "float_exponent y \<le> - 50"
proof -
  have "y < 2 powr 3" using assms(2) by (simp add: np_pi_def)
  then have "log 2 y < 3" using assms(1) by (simp add: log_less_iff)
  then have "\<lfloor>log 2 y\<rfloor> < 3" by (simp add: floor_less_iff)
  then show ?thesis using assms(1) by (simp add: float_exponent_def)
qed

lemma round_float_two_pi_bounds:
  assumes "0 < y" and "y \<le> 2 * np_pi"
  shows "0 \<le> round_float y" and "round_float y \<le> 2 * np_pi"
proof -
  define k where "k = nat (- 50 - float_exponent y)"
  have e: "float_exponent y = - int (50 + k)"
    using float_exponent_le [OF assms] by (simp add: k_def)
  have p0: "(2::real) powr (- real n) = 1 / 2 ^ n" for n
    by (simp add: powr_minus powr_realpow inverse_eq_divide)
  have p: "(2::real) powr (of_int (- int (50 + k))) = 1 / 2 ^ (50 + k)"
    using p0 [of "50 + k"] by (simp only: of_int_minus of_int_of_nat_eq)
  have r: "round_float y = of_int (round_half_even (y * 2 ^ (50 + k))) / 2 ^ (50 + k)"
    using assms(1) unfolding round_float_def e p by simp
  have "0 \<le> y * 2 ^ (50 + k)" using assms(1) by simp
  then have "0 \<le> round_half_even (y * 2 ^ (50 + k))" by (rule round_half_even_nonneg)
  then show "0 \<le> round_float y" unfolding r by simp
  have w: "2 * np_pi * 2 ^ (50 + k) = of_int (7074237752028440 * 2 ^ k)"
    by (simp add: np_pi_def power_add)
  have "y * 2 ^ (50 + k) \<le> 2 * np_pi * 2 ^ (50 + k)"
    using assms(2) by (simp only: mult_le_cancel_right) simp
  then have "round_half_even (y * 2 ^ (50 + k)) \<le> 7074237752028440 * 2 ^ k"
    unfolding w by (rule round_half_even_le)
  then have "(of_int (round_half_even (y * 2 ^ (50 + k))) :: real) \<le> of_int (7074237752028440 * 2 ^ k)"
    by (simp only: of_int_le_iff)
  then have "of_int (round_half_even (y * 2 ^ (50 + k))) / 2 ^ (50 + k)
      \<le> (of_int (7074237752028440 * 2 ^ k) :: real) / 2 ^ (50 + k)"
    by (simp only: divide_le_cancel) simp
  also have "(of_int (7074237752028440 * 2 ^ k) :: real) / 2 ^ (50 + k) = 2 * np_pi"
    by (simp add: np_pi_def power_add)
  finally show "round_float y \<le> 2 * np_pi" unfolding r .
qed

section \<open>Custom gates: inverse\<close>

lemma displacement_inverse_eq:
  "displacement_inverse \<lparr>gname = nm, gnum_qubits = q, params = [a, phi]\<rparr> =
     Inr \<lparr>gname = ''D'', gnum_qubits = 1,
          params = [a, if 0 \<le> round_float (phi + np_pi)
                       then floor_mod (round_float (phi + np_pi)) (2 * np_pi)
                       else round_float (floor_mod (round_float (phi + np_pi)) (2 * np_pi))]\<rparr>"
  by (simp add: displacement_inverse_def float_mul_two_pi py_mod_pos [OF two_pi_pos]
      float_add_def DisplacementGate_def)

lemma squeezing_inverse_eq:
  "squeezing_inverse \<lparr>gname = nm, gnum_qubits = q, params = [r, phi]\<rparr> =
     Inr \<lparr>gname = ''S'', gnum_qubits = 1,
          params = [r, if 0 \<le> round_float (phi + np_pi)
                       then floor_mod (round_float (phi + np_pi)) (2 * np_pi)
                       else round_float (floor_mod (round_float (phi + np_pi)) (2 * np_pi))]\<rparr>"
  by (simp add: squeezing_inverse_def float_mul_two_pi py_mod_pos [OF two_pi_pos]
      float_add_def SqueezingGate_def)

lemma inverse_angle_bounds:
  "0 \<le> (if 0 \<le> s then floor_mod s (2 * np_pi) else round_float (floor_mod s (2 * np_pi)))"
  "(if 0 \<le> s then floor_mod s (2 * np_pi) else round_float (floor_mod s (2 * np_pi)))
     \<le> 2 * np_pi"
proof -
  let ?y = "floor_mod s (2 * np_pi)"
  have lo: "0 \<le> ?y" and hi: "?y < 2 * np_pi"
    by (rule floor_mod_bounds [OF two_pi_pos])+
  have r: "0 \<le> round_float ?y \<and> round_float ?y \<le> 2 * np_pi"
  proof (cases "?y = 0")
    case True
    then show ?thesis using two_pi_pos by simp
  next
    case False
    with lo have "0 < ?y" by simp
    moreover from hi have "?y \<le> 2 * np_pi" by simp
    ultimately show ?thesis by (simp add: round_float_two_pi_bounds)
  qed
  show "0 \<le> (if 0 \<le> s then ?y else round_float ?y)" using lo r by simp
  show "(if 0 \<le> s then ?y else round_float ?y) \<le> 2 * np_pi" using hi r by simp
qed


text \<open>
  C10, amended. For every float input angle and every magnitude, the angle of the gate
  that \<open>inverse\<close> returns lies in the closed interval from 0 to \<open>2 * np.pi\<close>.
\<close>

theorem custom_gate_inverse_angle_range:
  "(\<exists>phi'. displacement_inverse \<lparr>gname = ''D'', gnum_qubits = 1, params = [a, phi]\<rparr> =
        Inr \<lparr>gname = ''D'', gnum_qubits = 1, params = [a, phi']\<rparr>
      \<and> 0 \<le> phi' \<and> phi' \<le> float_mul 2 np_pi)
   \<and> (\<exists>phi'. squeezing_inverse \<lparr>gname = ''S'', gnum_qubits = 1, params = [r, phi]\<rparr> =
        Inr \<lparr>gname = ''S'', gnum_qubits = 1, params = [r, phi']\<rparr>
      \<and> 0 \<le> phi' \<and> phi' \<le> float_mul 2 np_pi)"
  unfolding displacement_inverse_eq squeezing_inverse_eq float_mul_two_pi
  using inverse_angle_bounds [of "round_float (phi + np_pi)"] by blast

lemma round_half_even_below:
  assumes "0 \<le> d" and "d < 1 / 2"
  shows "round_half_even (of_int f + d) = f"
proof -
  have "\<lfloor>of_int f + d\<rfloor> = f" using assms by (intro floor_unique) simp_all
  then show ?thesis using assms by (simp add: round_half_even_def)
qed

lemma round_half_even_tie:
  "round_half_even (of_int f + 1 / 2) = (if even f then f else f + 1)"
proof -
  have "\<lfloor>of_int f + (1 / 2 :: real)\<rfloor> = f" by (intro floor_unique) simp_all
  then show ?thesis by (simp add: round_half_even_def)
qed

lemma floor_mod_self: "w \<noteq> 0 \<Longrightarrow> floor_mod w w = 0"
  by (simp add: floor_mod_def)

lemma floor_mod_small: "0 \<le> x \<Longrightarrow> x < w \<Longrightarrow> floor_mod x w = x"
proof -
  assume a: "0 \<le> x" "x < w"
  then have "\<lfloor>x / w\<rfloor> = 0" by (intro floor_unique) simp_all
  then show ?thesis by (simp add: floor_mod_def)
qed

lemma round_float_tiny_plus_pi: "round_float (1 / 2 ^ 60 + np_pi) = np_pi"
proof -
  let ?x = "1 / 2 ^ 60 + np_pi"
  have "round_float ?x = of_int (round_half_even (?x * 2 ^ 51)) / 2 ^ 51"
    by (rule round_float_at) (simp_all add: np_pi_def)
  also have "?x * 2 ^ 51 = of_int 7074237752028440 + 1 / 512"
    by (simp add: np_pi_def)
  also have "round_half_even (of_int 7074237752028440 + 1 / 512) = 7074237752028440"
    by (rule round_half_even_below) simp_all
  finally show ?thesis by (simp add: np_pi_def)
qed

lemma round_float_below_pi: "round_float (- 7074237752028441 / 2 ^ 51 + np_pi) = - 1 / 2 ^ 51"
proof -
  have x: "- 7074237752028441 / 2 ^ 51 + np_pi = - 1 / 2 ^ 51"
    by (simp add: np_pi_def)
  have "round_float (- 1 / 2 ^ 51) = of_int (round_half_even (- 1 / 2 ^ 51 * 2 ^ 103)) / 2 ^ 103"
    by (rule round_float_at) simp_all
  also have "- 1 / 2 ^ 51 * 2 ^ 103 = (of_int (- (2 ^ 52)) :: real)"
    by simp
  finally show ?thesis
    unfolding x by (simp only: round_half_even_of_int) simp
qed

lemma floor_mod_below_zero: "floor_mod (- 1 / 2 ^ 51) (2 * np_pi) = 14148475504056879 / 2 ^ 51"
proof -
  have "\<lfloor>(- 1 / 2 ^ 51) / (2 * np_pi)\<rfloor> = - 1"
    by (intro floor_unique) (simp_all add: np_pi_def)
  then show ?thesis by (simp add: floor_mod_def np_pi_def)
qed

lemma round_float_tie: "round_float (14148475504056879 / 2 ^ 51) = 2 * np_pi"
proof -
  let ?x = "14148475504056879 / 2 ^ 51 :: real"
  have "round_float ?x = of_int (round_half_even (?x * 2 ^ 50)) / 2 ^ 50"
    by (rule round_float_at) simp_all
  also have "?x * 2 ^ 50 = of_int 7074237752028439 + 1 / 2"
    by simp
  also have "round_half_even (of_int 7074237752028439 + 1 / 2) = 7074237752028440"
    by (simp only: round_half_even_tie) simp
  finally show ?thesis by (simp add: np_pi_def)
qed

text \<open>
  C10, as stated, fails: the inverse of a gate with angle -3.1415926535897936, the double
  just below \<open>- np.pi\<close>, has the angle \<open>2 * np.pi\<close> itself, which is not below
  \<open>2 * np.pi\<close>. The sum with \<open>np.pi\<close> is \<open>- 2 ^ -51\<close>, and adding the modulus to it
  is a tie that rounds up to the modulus.
\<close>

theorem custom_gate_inverse_angle_at_modulus:
  "displacement_inverse
      \<lparr>gname = ''D'', gnum_qubits = 1, params = [1, - 7074237752028441 / 2 ^ 51]\<rparr> =
     Inr \<lparr>gname = ''D'', gnum_qubits = 1, params = [1, 884279719003555 / 2 ^ 47]\<rparr>
   \<and> squeezing_inverse
      \<lparr>gname = ''S'', gnum_qubits = 1, params = [1, - 7074237752028441 / 2 ^ 51]\<rparr> =
     Inr \<lparr>gname = ''S'', gnum_qubits = 1, params = [1, 884279719003555 / 2 ^ 47]\<rparr>
   \<and> float_mul 2 np_pi = 884279719003555 / 2 ^ 47
   \<and> \<not> (884279719003555 / 2 ^ 47 < float_mul 2 np_pi)"
proof -
  have neg: "\<not> (0::real) \<le> - 1 / 2 ^ 51" by simp
  have ang: "(if 0 \<le> round_float (- 7074237752028441 / 2 ^ 51 + np_pi)
        then floor_mod (round_float (- 7074237752028441 / 2 ^ 51 + np_pi)) (2 * np_pi)
        else round_float (floor_mod (round_float (- 7074237752028441 / 2 ^ 51 + np_pi)) (2 * np_pi)))
      = 2 * np_pi"
    by (simp only: round_float_below_pi neg if_False floor_mod_below_zero round_float_tie)
  show ?thesis
    unfolding displacement_inverse_eq squeezing_inverse_eq ang float_mul_two_pi
    by (simp add: np_pi_def)
qed

text \<open>
  C6, as stated, fails: the angle \<open>2 ^ -60\<close> is absorbed by the first sum, so the inverse
  has angle \<open>np.pi\<close> and the inverse of that has angle 0, which differs from
  \<open>2 ^ -60\<close> by no integer multiple of \<open>2\<pi>\<close>, nor of \<open>2 * np.pi\<close>.
\<close>

theorem custom_gate_inverse_twice_counterexample:
  "displacement_inverse \<lparr>gname = ''D'', gnum_qubits = 1, params = [1, 1 / 2 ^ 60]\<rparr> =
     Inr \<lparr>gname = ''D'', gnum_qubits = 1, params = [1, np_pi]\<rparr>
   \<and> displacement_inverse \<lparr>gname = ''D'', gnum_qubits = 1, params = [1, np_pi]\<rparr> =
     Inr \<lparr>gname = ''D'', gnum_qubits = 1, params = [1, 0]\<rparr>
   \<and> (\<forall>k :: int. (0::real) \<noteq> 1 / 2 ^ 60 + 2 * pi * of_int k)
   \<and> (\<forall>k :: int. (0::real) \<noteq> 1 / 2 ^ 60 + float_mul 2 np_pi * of_int k)"
proof -
  have pos: "0 \<le> np_pi" and lt: "np_pi < 2 * np_pi" by (simp_all add: np_pi_def)
  have first: "displacement_inverse \<lparr>gname = ''D'', gnum_qubits = 1, params = [1, 1 / 2 ^ 60]\<rparr> =
      Inr \<lparr>gname = ''D'', gnum_qubits = 1, params = [1, np_pi]\<rparr>"
    unfolding displacement_inverse_eq round_float_tiny_plus_pi
    using pos by (simp add: floor_mod_small [OF pos lt])
  have sum: "round_float (np_pi + np_pi) = 2 * np_pi"
    using round_float_two_pi by simp
  have second: "displacement_inverse \<lparr>gname = ''D'', gnum_qubits = 1, params = [1, np_pi]\<rparr> =
      Inr \<lparr>gname = ''D'', gnum_qubits = 1, params = [1, 0]\<rparr>"
    unfolding displacement_inverse_eq sum
    using two_pi_pos by (simp add: floor_mod_self)
  have no_multiple: "(0::real) \<noteq> 1 / 2 ^ 60 + w * of_int k" if w: "4 \<le> w" for w and k :: int
  proof (cases "0 \<le> k")
    case True
    then have "0 \<le> w * of_int k" using w by simp
    moreover have "(0::real) < 1 / 2 ^ 60" by simp
    ultimately show ?thesis by linarith
  next
    case False
    then have "k \<le> - 1" by simp
    then have "(of_int k :: real) \<le> of_int (- 1)" by (simp only: of_int_le_iff)
    then have "(of_int k :: real) \<le> - 1" by simp
    then have "w * of_int k \<le> w * (- 1)" using w by (intro mult_left_mono) simp_all
    then have "w * of_int k \<le> - 4" using w by simp
    moreover have "(1::real) / 2 ^ 60 < 4" by simp
    ultimately show ?thesis by linarith
  qed
  have "4 \<le> 2 * pi" using pi_ge_two by simp
  then have real: "\<forall>k :: int. (0::real) \<noteq> 1 / 2 ^ 60 + 2 * pi * of_int k"
    using no_multiple by blast
  have "4 \<le> float_mul 2 np_pi" unfolding float_mul_two_pi by (simp add: np_pi_def)
  then have dbl: "\<forall>k :: int. (0::real) \<noteq> 1 / 2 ^ 60 + float_mul 2 np_pi * of_int k"
    using no_multiple by blast
  from first second real dbl show ?thesis by blast
qed

lemma floor_mod_twice:
  assumes "0 < b"
  shows "floor_mod (floor_mod (x + b / 2) b + b / 2) b = floor_mod x b"
proof -
  let ?k = "\<lfloor>(x + b / 2) / b\<rfloor>"
  have "((x + b / 2 - b * of_int ?k) + b / 2) / b = x / b + of_int (1 - ?k)"
    using assms by (simp add: field_simps)
  then have "\<lfloor>((x + b / 2 - b * of_int ?k) + b / 2) / b\<rfloor> = \<lfloor>x / b\<rfloor> + (1 - ?k)"
    by (simp only: floor_add_int)
  then have "of_int \<lfloor>((x + b / 2 - b * of_int ?k) + b / 2) / b\<rfloor>
      = (of_int \<lfloor>x / b\<rfloor> + 1 - of_int ?k :: real)"
    by simp
  then show ?thesis
    unfolding floor_mod_def by (simp only:) (simp add: algebra_simps)
qed

lemma inverse_twice_exact:
  assumes "representable (phi + np_pi)"
    and "representable (floor_mod (phi + np_pi) (2 * np_pi))"
    and "representable (floor_mod (phi + np_pi) (2 * np_pi) + np_pi)"
  defines "phi1 \<equiv> (if 0 \<le> round_float (phi + np_pi)
                       then floor_mod (round_float (phi + np_pi)) (2 * np_pi)
                       else round_float (floor_mod (round_float (phi + np_pi)) (2 * np_pi)))"
  shows "(if 0 \<le> round_float (phi1 + np_pi)
          then floor_mod (round_float (phi1 + np_pi)) (2 * np_pi)
          else round_float (floor_mod (round_float (phi1 + np_pi)) (2 * np_pi)))
         = phi + float_mul 2 np_pi * of_int (- \<lfloor>phi / (2 * np_pi)\<rfloor>)"
proof -
  have s1: "round_float (phi + np_pi) = phi + np_pi"
    using assms(1) by (simp add: representable_def)
  have p1: "phi1 = floor_mod (phi + np_pi) (2 * np_pi)"
    using assms(2) by (simp add: phi1_def s1 representable_def)
  have s2: "round_float (phi1 + np_pi) = floor_mod (phi + np_pi) (2 * np_pi) + np_pi"
    using assms(3) by (simp add: p1 representable_def)
  have "0 \<le> floor_mod (phi + np_pi) (2 * np_pi)"
    by (rule floor_mod_bounds [OF two_pi_pos])
  moreover have "0 \<le> np_pi" by (simp add: np_pi_def)
  ultimately have nonneg: "0 \<le> floor_mod (phi + np_pi) (2 * np_pi) + np_pi" by simp
  have "floor_mod (floor_mod (phi + np_pi) (2 * np_pi) + np_pi) (2 * np_pi) =
      floor_mod phi (2 * np_pi)"
    using floor_mod_twice [OF two_pi_pos, of phi] by simp
  then show ?thesis
    unfolding s2 float_mul_two_pi using nonneg by (simp add: floor_mod_def)
qed

text \<open>
  C6, amended. For every magnitude and angle, \<open>inverse\<close> keeps the magnitude, also when
  applied twice. The angle after two inverses differs from the original angle by an
  integer multiple of \<open>2 * np.pi\<close> whenever the intermediate values are doubles without
  rounding: the sum \<open>angle + np.pi\<close>, its remainder modulo \<open>2 * np.pi\<close>, and the sum
  of that remainder with \<open>np.pi\<close>.
\<close>

theorem custom_gate_inverse_involution:
  "(\<exists>phi1 phi2.
      displacement_inverse \<lparr>gname = ''D'', gnum_qubits = 1, params = [a, phi]\<rparr> =
        Inr \<lparr>gname = ''D'', gnum_qubits = 1, params = [a, phi1]\<rparr>
      \<and> displacement_inverse \<lparr>gname = ''D'', gnum_qubits = 1, params = [a, phi1]\<rparr> =
        Inr \<lparr>gname = ''D'', gnum_qubits = 1, params = [a, phi2]\<rparr>
      \<and> (representable (phi + np_pi)
           \<and> representable (floor_mod (phi + np_pi) (2 * np_pi))
           \<and> representable (floor_mod (phi + np_pi) (2 * np_pi) + np_pi)
         \<longrightarrow> (\<exists>k :: int. phi2 = phi + float_mul 2 np_pi * of_int k)))
   \<and> (\<exists>phi1 phi2.
      squeezing_inverse \<lparr>gname = ''S'', gnum_qubits = 1, params = [r, phi]\<rparr> =
        Inr \<lparr>gname = ''S'', gnum_qubits = 1, params = [r, phi1]\<rparr>
      \<and> squeezing_inverse \<lparr>gname = ''S'', gnum_qubits = 1, params = [r, phi1]\<rparr> =
        Inr \<lparr>gname = ''S'', gnum_qubits = 1, params = [r, phi2]\<rparr>
      \<and> (representable (phi + np_pi)
           \<and> representable (floor_mod (phi + np_pi) (2 * np_pi))
           \<and> representable (floor_mod (phi + np_pi) (2 * np_pi) + np_pi)
         \<longrightarrow> (\<exists>k :: int. phi2 = phi + float_mul 2 np_pi * of_int k)))"
proof -
  let ?angle = "\<lambda>x. if 0 \<le> round_float (x + np_pi)
                     then floor_mod (round_float (x + np_pi)) (2 * np_pi)
                     else round_float (floor_mod (round_float (x + np_pi)) (2 * np_pi))"
  have d1: "displacement_inverse \<lparr>gname = ''D'', gnum_qubits = 1, params = [a, phi]\<rparr> =
      Inr \<lparr>gname = ''D'', gnum_qubits = 1, params = [a, ?angle phi]\<rparr>"
    by (rule displacement_inverse_eq)
  have d2: "displacement_inverse \<lparr>gname = ''D'', gnum_qubits = 1, params = [a, ?angle phi]\<rparr> =
      Inr \<lparr>gname = ''D'', gnum_qubits = 1, params = [a, ?angle (?angle phi)]\<rparr>"
    by (rule displacement_inverse_eq)
  have s1: "squeezing_inverse \<lparr>gname = ''S'', gnum_qubits = 1, params = [r, phi]\<rparr> =
      Inr \<lparr>gname = ''S'', gnum_qubits = 1, params = [r, ?angle phi]\<rparr>"
    by (rule squeezing_inverse_eq)
  have s2: "squeezing_inverse \<lparr>gname = ''S'', gnum_qubits = 1, params = [r, ?angle phi]\<rparr> =
      Inr \<lparr>gname = ''S'', gnum_qubits = 1, params = [r, ?angle (?angle phi)]\<rparr>"
    by (rule squeezing_inverse_eq)
  have cong: "representable (phi + np_pi)
           \<and> representable (floor_mod (phi + np_pi) (2 * np_pi))
           \<and> representable (floor_mod (phi + np_pi) (2 * np_pi) + np_pi)
         \<longrightarrow> (\<exists>k :: int. ?angle (?angle phi) = phi + float_mul 2 np_pi * of_int k)"
    using inverse_twice_exact [of phi] by blast
  from d1 d2 s1 s2 cong show ?thesis by blast
qed

theorem custom_gate_inverse_involution_witness:
  "representable (0 + np_pi)
   \<and> representable (floor_mod (0 + np_pi) (2 * np_pi))
   \<and> representable (floor_mod (0 + np_pi) (2 * np_pi) + np_pi)
   \<and> displacement_inverse \<lparr>gname = ''D'', gnum_qubits = 1, params = [1, 0]\<rparr> =
        Inr \<lparr>gname = ''D'', gnum_qubits = 1, params = [1, np_pi]\<rparr>
   \<and> displacement_inverse \<lparr>gname = ''D'', gnum_qubits = 1, params = [1, np_pi]\<rparr> =
        Inr \<lparr>gname = ''D'', gnum_qubits = 1, params = [1, 0]\<rparr>
   \<and> (\<exists>k :: int. (0::real) = 0 + float_mul 2 np_pi * of_int k)"
proof -
  have pos: "0 \<le> np_pi" and lt: "np_pi < 2 * np_pi" by (simp_all add: np_pi_def)
  have fm: "floor_mod (0 + np_pi) (2 * np_pi) = np_pi"
    using floor_mod_small [OF pos lt] by simp
  have h1: "representable (0 + np_pi)"
    by (simp add: representable_def round_float_np_pi)
  have h2: "representable (floor_mod (0 + np_pi) (2 * np_pi))"
    unfolding fm by (simp add: representable_def round_float_np_pi)
  have h3: "representable (floor_mod (0 + np_pi) (2 * np_pi) + np_pi)"
    unfolding fm using round_float_two_pi by (simp add: representable_def)
  have first: "displacement_inverse \<lparr>gname = ''D'', gnum_qubits = 1, params = [1, 0]\<rparr> =
      Inr \<lparr>gname = ''D'', gnum_qubits = 1, params = [1, np_pi]\<rparr>"
    unfolding displacement_inverse_eq
    using pos by (simp add: round_float_np_pi floor_mod_small [OF pos lt])
  have sum: "round_float (np_pi + np_pi) = 2 * np_pi"
    using round_float_two_pi by simp
  have second: "displacement_inverse \<lparr>gname = ''D'', gnum_qubits = 1, params = [1, np_pi]\<rparr> =
      Inr \<lparr>gname = ''D'', gnum_qubits = 1, params = [1, 0]\<rparr>"
    unfolding displacement_inverse_eq sum
    using two_pi_pos by (simp add: floor_mod_self)
  obtain phi1 phi2 where
    e1: "displacement_inverse \<lparr>gname = ''D'', gnum_qubits = 1, params = [1, 0]\<rparr> =
        Inr \<lparr>gname = ''D'', gnum_qubits = 1, params = [1, phi1]\<rparr>"
    and e2: "displacement_inverse \<lparr>gname = ''D'', gnum_qubits = 1, params = [1, phi1]\<rparr> =
        Inr \<lparr>gname = ''D'', gnum_qubits = 1, params = [1, phi2]\<rparr>"
    and c: "representable (0 + np_pi)
           \<and> representable (floor_mod (0 + np_pi) (2 * np_pi))
           \<and> representable (floor_mod (0 + np_pi) (2 * np_pi) + np_pi)
         \<longrightarrow> (\<exists>k :: int. phi2 = 0 + float_mul 2 np_pi * of_int k)"
    using custom_gate_inverse_involution [of 1 0 1] by blast
  have "phi1 = np_pi" using e1 first by simp
  then have z: "phi2 = 0" using e2 second by simp
  from c h1 h2 h3 obtain k :: int where "phi2 = 0 + float_mul 2 np_pi * of_int k" by blast
  then have "(0::real) = 0 + float_mul 2 np_pi * of_int k" unfolding z .
  then have "\<exists>k :: int. (0::real) = 0 + float_mul 2 np_pi * of_int k" ..
  with h1 h2 h3 first second show ?thesis by blast
qed

section \<open>Custom gates: matrices\<close>

lemma round_float_one: "round_float 1 = 1"
proof -
  have "round_float 1 = of_int (round_half_even (1 * 2 ^ 52)) / 2 ^ 52"
    by (rule round_float_at) simp_all
  also have "(1::real) * 2 ^ 52 = of_int (2 ^ 52)" by simp
  finally show ?thesis by (simp only: round_half_even_of_int) simp
qed

lemma round_float_two: "round_float 2 = 2"
proof -
  have "round_float 2 = of_int (round_half_even (2 * 2 ^ 51)) / 2 ^ 51"
    by (rule round_float_at) simp_all
  also have "(2::real) * 2 ^ 51 = of_int (2 ^ 52)" by simp
  finally show ?thesis by (simp only: round_half_even_of_int) simp
qed

text \<open>
  C4, as stated, fails: column 0 of the Displacement matrix is not the anchor. With
  magnitude 1 and angle 0 it is \<open>[1, 2, 0]\<close>.
\<close>

theorem displacement_column_counterexample:
  "D_matrix double_arith 1 0 = [[1, 0, 0], [2, 1, 0], [0, 0, 1]]
   \<and> column (D_matrix double_arith 1 0) 0 = [1, 2, 0]
   \<and> column (D_matrix double_arith 1 0) 0 \<noteq> [of_literal double_arith 1, of_literal double_arith 0,
        of_literal double_arith 0]"
  by (simp add: D_matrix_def double_arith_def column_def float_mul_def round_float_one
      round_float_two)

text \<open>
  C4, amended. For all parameters, and whatever the float operations compute, the matrix
  that the Displacement gate's \<open>_define\<close> builds is
  \<open>[[1,0,0],[2 a cos phi,1,0],[2 a sin phi,0,1]]\<close> and the one of the Squeezing gate is
  \<open>[[1,0,0],[0, cosh r - cos phi sinh r, - sin phi sinh r],[0, - sin phi sinh r,
  cosh r + cos phi sinh r]]\<close>, each entry evaluated in the code's arithmetic; both have three
  rows of three entries and row 0 equal to the anchor \<open>[1,0,0]\<close>. Column 0 is the anchor
  for Squeezing; for Displacement it is \<open>[1, 2 a cos phi, 2 a sin phi]\<close>.
\<close>

theorem custom_gate_matrices:
  "D_matrix ar a phi =
     [[of_literal ar 1, of_literal ar 0, of_literal ar 0],
      [f_mul ar (f_mul ar (of_literal ar 2) a) (np_cos ar phi), of_literal ar 1, of_literal ar 0],
      [f_mul ar (f_mul ar (of_literal ar 2) a) (np_sin ar phi), of_literal ar 0, of_literal ar 1]]
   \<and> S_matrix ar r phi =
     [[of_literal ar 1, of_literal ar 0, of_literal ar 0],
      [of_literal ar 0,
       f_sub ar (np_cosh ar r) (f_mul ar (np_cos ar phi) (np_sinh ar r)),
       f_mul ar (f_neg ar (np_sin ar phi)) (np_sinh ar r)],
      [of_literal ar 0,
       f_mul ar (f_neg ar (np_sin ar phi)) (np_sinh ar r),
       f_add ar (np_cosh ar r) (f_mul ar (np_cos ar phi) (np_sinh ar r))]]
   \<and> length (D_matrix ar a phi) = 3 \<and> list_all (\<lambda>row. length row = 3) (D_matrix ar a phi)
   \<and> length (S_matrix ar r phi) = 3 \<and> list_all (\<lambda>row. length row = 3) (S_matrix ar r phi)
   \<and> D_matrix ar a phi ! 0 = [of_literal ar 1, of_literal ar 0, of_literal ar 0]
   \<and> S_matrix ar r phi ! 0 = [of_literal ar 1, of_literal ar 0, of_literal ar 0]
   \<and> column (S_matrix ar r phi) 0 = [of_literal ar 1, of_literal ar 0, of_literal ar 0]
   \<and> column (D_matrix ar a phi) 0 =
       [of_literal ar 1, f_mul ar (f_mul ar (of_literal ar 2) a) (np_cos ar phi),
        f_mul ar (f_mul ar (of_literal ar 2) a) (np_sin ar phi)]"
  by (simp add: D_matrix_def S_matrix_def Let_def column_def)

text \<open>
  The host refuses a matrix of three rows, so \<open>_define\<close> of either gate ends in
  \<open>ValueError\<close> for every pair of parameters.
\<close>

lemma qc_unitary_three_rows:
  "length M = 3 \<Longrightarrow> qc_unitary is_unitary qc M q = Inl ValueError"
  by (simp add: qc_unitary_def)

lemma custom_gate_define_refused:
  "displacement_define ar is_unitary \<lparr>gname = nm, gnum_qubits = q, params = [a, phi]\<rparr> =
     Inl ValueError"
  "squeezing_define ar is_unitary \<lparr>gname = nm, gnum_qubits = q, params = [r, phi]\<rparr> =
     Inl ValueError"
  by (simp_all add: displacement_define_def squeezing_define_def QuantumCircuit_def
      qc_unitary_three_rows D_matrix_def S_matrix_def Let_def)

section \<open>DisplacementEmbedding and SqueezingEmbedding: the circuit\<close>

lemma displacement_loop_data:
  "list_all (\<lambda>q. q < nat n) qs \<Longrightarrow> qc_num_qubits qc = nat n \<Longrightarrow>
   displacement_loop amp (ParameterVector nm n) qs qc =
     Inr (qc\<lparr>data := data qc @
       map (\<lambda>i. (if amp then DisplacementGate (Elem nm i) (Num 0.1)
                  else DisplacementGate (Num 0.1) (Elem nm i), [i])) qs\<rparr>)"
proof (induction qs arbitrary: qc)
  case Nil
  show ?case by simp
next
  case (Cons q qs)
  have q: "q < nat n" and qs: "list_all (\<lambda>q. q < nat n) qs"
    using Cons.prems(1) by simp_all
  let ?g = "if amp then DisplacementGate (Elem nm q) (Num 0.1)
            else DisplacementGate (Num 0.1) (Elem nm q)"
  let ?qc = "qc\<lparr>data := data qc @ [(?g, [q])]\<rparr>"
  have one: "gnum_qubits ?g = 1" by (simp add: DisplacementGate_def)
  have step: "qc_append qc ?g [q] = Inr ?qc"
    using q Cons.prems(2) by (intro qc_append_one one) simp
  have rest: "displacement_loop amp (ParameterVector nm n) qs ?qc =
      Inr (?qc\<lparr>data := data ?qc @
        map (\<lambda>i. (if amp then DisplacementGate (Elem nm i) (Num 0.1)
                   else DisplacementGate (Num 0.1) (Elem nm i), [i])) qs\<rparr>)"
    using qs Cons.prems(2) by (intro Cons.IH) simp_all
  show ?case
  proof (cases amp)
    case True
    with step rest show ?thesis by (simp add: getitem_ParameterVector [OF q])
  next
    case False
    with step rest show ?thesis by (simp add: getitem_ParameterVector [OF q])
  qed
qed

lemma squeezing_loop_data:
  "list_all (\<lambda>q. q < nat n) qs \<Longrightarrow> qc_num_qubits qc = nat n \<Longrightarrow>
   squeezing_loop amp (ParameterVector nm n) qs qc =
     Inr (qc\<lparr>data := data qc @
       map (\<lambda>i. (if amp then SqueezingGate (Elem nm i) (Num 0.1)
                  else SqueezingGate (Num 0.1) (Elem nm i), [i])) qs\<rparr>)"
proof (induction qs arbitrary: qc)
  case Nil
  show ?case by simp
next
  case (Cons q qs)
  have q: "q < nat n" and qs: "list_all (\<lambda>q. q < nat n) qs"
    using Cons.prems(1) by simp_all
  let ?g = "if amp then SqueezingGate (Elem nm q) (Num 0.1)
            else SqueezingGate (Num 0.1) (Elem nm q)"
  let ?qc = "qc\<lparr>data := data qc @ [(?g, [q])]\<rparr>"
  have one: "gnum_qubits ?g = 1" by (simp add: SqueezingGate_def)
  have step: "qc_append qc ?g [q] = Inr ?qc"
    using q Cons.prems(2) by (intro qc_append_one one) simp
  have rest: "squeezing_loop amp (ParameterVector nm n) qs ?qc =
      Inr (?qc\<lparr>data := data ?qc @
        map (\<lambda>i. (if amp then SqueezingGate (Elem nm i) (Num 0.1)
                   else SqueezingGate (Num 0.1) (Elem nm i), [i])) qs\<rparr>)"
    using qs Cons.prems(2) by (intro Cons.IH) simp_all
  show ?case
  proof (cases amp)
    case True
    with step rest show ?thesis by (simp add: getitem_ParameterVector [OF q])
  next
    case False
    with step rest show ?thesis by (simp add: getitem_ParameterVector [OF q])
  qed
qed

lemma range_py_bounded: "list_all (\<lambda>q. q < nat n) (range_py n)"
  by (simp add: range_py_def list_all_iff)

lemma displacement_create_circuit_eq:
  assumes "0 \<le> n"
  shows "bind_err (DisplacementEmbedding n amp) displacement_create_circuit =
     Inr \<lparr>qc_num_qubits = nat n,
          data = map (\<lambda>i. (if amp then DisplacementGate (Elem ''x'' i) (Num 0.1)
                            else DisplacementGate (Num 0.1) (Elem ''x'' i), [i])) [0..<nat n]\<rparr>"
proof -
  let ?qc0 = "\<lparr>qc_num_qubits = nat n, data = []\<rparr>"
  have "displacement_loop amp (ParameterVector ''x'' n) (range_py n) ?qc0 =
      Inr (?qc0\<lparr>data := data ?qc0 @
        map (\<lambda>i. (if amp then DisplacementGate (Elem ''x'' i) (Num 0.1)
                   else DisplacementGate (Num 0.1) (Elem ''x'' i), [i])) (range_py n)\<rparr>)"
    by (rule displacement_loop_data [OF range_py_bounded]) simp
  then show ?thesis
    using assms
    by (simp add: DisplacementEmbedding_def displacement_create_circuit_def
        QuantumCircuit_def range_py_def)
qed

lemma squeezing_create_circuit_eq:
  assumes "0 \<le> n"
  shows "bind_err (SqueezingEmbedding n amp) squeezing_create_circuit =
     Inr \<lparr>qc_num_qubits = nat n,
          data = map (\<lambda>i. (if amp then SqueezingGate (Elem ''x'' i) (Num 0.1)
                            else SqueezingGate (Num 0.1) (Elem ''x'' i), [i])) [0..<nat n]\<rparr>"
proof -
  let ?qc0 = "\<lparr>qc_num_qubits = nat n, data = []\<rparr>"
  have "squeezing_loop amp (ParameterVector ''x'' n) (range_py n) ?qc0 =
      Inr (?qc0\<lparr>data := data ?qc0 @
        map (\<lambda>i. (if amp then SqueezingGate (Elem ''x'' i) (Num 0.1)
                   else SqueezingGate (Num 0.1) (Elem ''x'' i), [i])) (range_py n)\<rparr>)"
    by (rule squeezing_loop_data [OF range_py_bounded]) simp
  then show ?thesis
    using assms
    by (simp add: SqueezingEmbedding_def squeezing_create_circuit_def
        QuantumCircuit_def range_py_def)
qed

text \<open>
  C3. For every positive \<open>num_qubits\<close> and either value of the selector, the
  Displacement and the Squeezing scheme emit exactly one custom gate per qubit, in
  ascending qubit order, and nothing else; the gate on qubit \<open>i\<close> has parameters
  \<open>(x[i], 0.1)\<close> when the amplitude is parameterized and \<open>(0.1, x[i])\<close> otherwise.
\<close>

theorem custom_embedding_circuit:
  assumes "0 < n"
  shows "bind_err (DisplacementEmbedding n amp) displacement_create_circuit =
           Inr \<lparr>qc_num_qubits = nat n,
                data = map (\<lambda>i. (\<lparr>gname = ''D'', gnum_qubits = 1,
                                    params = (if amp then [Elem ''x'' i, Num 0.1]
                                              else [Num 0.1, Elem ''x'' i])\<rparr>, [i]))
                         [0..<nat n]\<rparr>
       \<and> bind_err (SqueezingEmbedding n amp) squeezing_create_circuit =
           Inr \<lparr>qc_num_qubits = nat n,
                data = map (\<lambda>i. (\<lparr>gname = ''S'', gnum_qubits = 1,
                                    params = (if amp then [Elem ''x'' i, Num 0.1]
                                              else [Num 0.1, Elem ''x'' i])\<rparr>, [i]))
                         [0..<nat n]\<rparr>"
proof -
  have n: "0 \<le> n" using assms by simp
  show ?thesis
    by (cases amp)
      (simp_all add: displacement_create_circuit_eq [OF n] squeezing_create_circuit_eq [OF n]
        DisplacementGate_def SqueezingGate_def)
qed

theorem custom_embedding_circuit_witness:
  "(0::int) < 3
   \<and> bind_err (DisplacementEmbedding 3 True) displacement_create_circuit =
       Inr \<lparr>qc_num_qubits = 3,
            data = [(\<lparr>gname = ''D'', gnum_qubits = 1, params = [Elem ''x'' 0, Num 0.1]\<rparr>, [0]),
                    (\<lparr>gname = ''D'', gnum_qubits = 1, params = [Elem ''x'' 1, Num 0.1]\<rparr>, [1]),
                    (\<lparr>gname = ''D'', gnum_qubits = 1, params = [Elem ''x'' 2, Num 0.1]\<rparr>, [2])]\<rparr>
   \<and> bind_err (SqueezingEmbedding 3 False) squeezing_create_circuit =
       Inr \<lparr>qc_num_qubits = 3,
            data = [(\<lparr>gname = ''S'', gnum_qubits = 1, params = [Num 0.1, Elem ''x'' 0]\<rparr>, [0]),
                    (\<lparr>gname = ''S'', gnum_qubits = 1, params = [Num 0.1, Elem ''x'' 1]\<rparr>, [1]),
                    (\<lparr>gname = ''S'', gnum_qubits = 1, params = [Num 0.1, Elem ''x'' 2]\<rparr>, [2])]\<rparr>"
proof -
  have h: "(0::int) < 3" by simp
  have u: "[0..<nat 3] = [0, 1, 2]" by (simp add: upt_rec)
  show ?thesis
    using custom_embedding_circuit [OF h, of True] custom_embedding_circuit [OF h, of False]
    unfolding u by simp
qed

text \<open>
  C7. The constructors of the Displacement and the Squeezing scheme have no check of
  \<open>num_qubits\<close>: with 0 and with -1 they return an embedding, and with 0
  \<open>create_circuit\<close> returns an empty circuit. The Basis and the Angle scheme refuse
  such a qubit count.
\<close>

theorem custom_embedding_accepts_nonpositive:
  "DisplacementEmbedding 0 True =
     Inr \<lparr>disp_num_qubits = 0, disp_amplitude = True, disp_parameters = []\<rparr>
   \<and> DisplacementEmbedding (- 1) True =
     Inr \<lparr>disp_num_qubits = - 1, disp_amplitude = True, disp_parameters = []\<rparr>
   \<and> SqueezingEmbedding 0 True =
     Inr \<lparr>sq_num_qubits = 0, sq_amplitude = True, sq_parameters = []\<rparr>
   \<and> SqueezingEmbedding (- 1) True =
     Inr \<lparr>sq_num_qubits = - 1, sq_amplitude = True, sq_parameters = []\<rparr>
   \<and> bind_err (DisplacementEmbedding 0 True) displacement_create_circuit =
     Inr \<lparr>qc_num_qubits = 0, data = []\<rparr>
   \<and> bind_err (SqueezingEmbedding 0 True) squeezing_create_circuit =
     Inr \<lparr>qc_num_qubits = 0, data = []\<rparr>"
  by (simp add: DisplacementEmbedding_def SqueezingEmbedding_def ParameterVector_def
      range_py_def displacement_create_circuit_def squeezing_create_circuit_def
      QuantumCircuit_def)

lemma basis_rejects_nonpositive:
  "n \<le> 0 \<Longrightarrow> BasisEmbedding n = Inl (QiskitError ''num_qubits must be a positive integer.'')"
  by (simp add: BasisEmbedding_def)

lemma angle_rejects_nonpositive:
  "n \<le> 0 \<Longrightarrow> \<exists>msg. AngleEmbedding v n rep = Inl (QiskitError msg)"
  by (cases v) simp_all


section \<open>AngleEmbedding: the loops\<close>

lemma angle_dispatch:
  assumes "k \<in> {''RX'', ''RY'', ''RZ''}"
  shows "(if PStr k = PStr ''RY'' then qc_ry qc p j
          else if PStr k = PStr ''RZ'' then qc_rz qc p j
          else if PStr k = PStr ''RX'' then qc_rx qc p j
          else Inr qc) = qc_append qc (rotation k p) [j]"
  using assms
  by (auto simp add: qc_rx_def qc_ry_def qc_rz_def rotation_def RXGate_def RYGate_def RZGate_def)

lemma gnum_qubits_rotation [simp]: "gnum_qubits (rotation k p) = 1"
  by (simp add: rotation_def)

lemma angle_qubits_data:
  assumes "k \<in> {''RX'', ''RY'', ''RZ''}"
  shows "list_all (\<lambda>q. q < nat n) qs \<Longrightarrow> qc_num_qubits qc = nat n \<Longrightarrow>
   (if rep then nat n \<le> nat len else idx + length qs \<le> nat len) \<Longrightarrow>
   angle_qubits rep (ParameterVector nm len) (PStr k) qs (idx, qc) =
     Inr (if rep then idx else idx + length qs,
          qc\<lparr>data := data qc @
            map (\<lambda>(m, j). (rotation k (Elem nm (if rep then j else idx + m)), [j]))
              (enumerate 0 qs)\<rparr>)"
proof (induction qs arbitrary: idx qc)
  case Nil
  show ?case by simp
next
  case (Cons q qs)
  have q: "q < nat n" and qs: "list_all (\<lambda>q. q < nat n) qs"
    using Cons.prems(1) by simp_all
  let ?i = "if rep then q else idx"
  let ?idx = "if \<not> rep then idx + 1 else idx"
  let ?qc = "qc\<lparr>data := data qc @ [(rotation k (Elem nm ?i), [q])]\<rparr>"
  have i: "?i < nat len" using q Cons.prems(3) by (auto split: if_splits)
  have get: "(if rep then getitem (ParameterVector nm len) q
              else getitem (ParameterVector nm len) idx) = Inr (Elem nm ?i)"
    using getitem_ParameterVector [OF i, of nm] by (cases rep) simp_all
  have step: "qc_append qc (rotation k (Elem nm ?i)) [q] = Inr ?qc"
    using q Cons.prems(2) by (intro qc_append_one) simp_all
  have bound: "if rep then nat n \<le> nat len else ?idx + length qs \<le> nat len"
    using Cons.prems(3) by (simp split: if_splits)
  have rest: "angle_qubits rep (ParameterVector nm len) (PStr k) qs (?idx, ?qc) =
     Inr (if rep then ?idx else ?idx + length qs,
          ?qc\<lparr>data := data ?qc @
            map (\<lambda>(m, j). (rotation k (Elem nm (if rep then j else ?idx + m)), [j]))
              (enumerate 0 qs)\<rparr>)"
    using qs Cons.prems(2) bound by (intro Cons.IH) simp_all
  have shift: "map (\<lambda>(m, j). (rotation k (Elem nm (if rep then j else idx + m)), [j]))
        (enumerate (Suc 0) qs) =
      map (\<lambda>(m, j). (rotation k (Elem nm (if rep then j else ?idx + m)), [j]))
        (enumerate 0 qs)"
    by (simp add: enumerate_Suc_eq [of 0] case_prod_beta)
  show ?case
    unfolding angle_qubits.simps get angle_dispatch [OF assms] bind_err_Inr step rest
    by (simp add: shift [symmetric])
qed

lemma enumerate_upt: "enumerate 0 [0..<N] = map (\<lambda>j. (j, j)) [0..<N]"
  by (rule nth_equalityI) (simp_all add: nth_enumerate_eq)

lemma angle_layer_data:
  assumes "k \<in> {''RX'', ''RY'', ''RZ''}" and "qc_num_qubits qc = nat n"
    and "if rep then nat n \<le> nat len else idx + nat n \<le> nat len"
  shows "angle_qubits rep (ParameterVector nm len) (PStr k) (range_py n) (idx, qc) =
     Inr (if rep then idx else idx + nat n,
          qc\<lparr>data := data qc @
            map (\<lambda>j. (rotation k (Elem nm (if rep then j else idx + j)), [j])) [0..<nat n]\<rparr>)"
proof -
  have len: "length (range_py n) = nat n" by (simp add: range_py_def)
  have b: "if rep then nat n \<le> nat len else idx + length (range_py n) \<le> nat len"
    using assms(3) by (simp add: len)
  show ?thesis
    unfolding angle_qubits_data [OF assms(1) range_py_bounded assms(2) b]
    by (simp add: range_py_def enumerate_upt comp_def)
qed


lemma angle_layers_data:
  "set ks \<subseteq> {''RX'', ''RY'', ''RZ''} \<Longrightarrow> qc_num_qubits qc = nat n \<Longrightarrow>
   (if rep then nat n \<le> nat len else idx + nat n * length ks \<le> nat len) \<Longrightarrow>
   angle_layers rep (ParameterVector nm len) n (map PStr ks) (idx, qc) =
     Inr (if rep then idx else idx + nat n * length ks,
          qc\<lparr>data := data qc @
            concat (map (\<lambda>(l, k).
                map (\<lambda>j. (rotation k (Elem nm (if rep then j else idx + l * nat n + j)), [j]))
                  [0..<nat n])
              (enumerate 0 ks))\<rparr>)"
proof (induction ks arbitrary: idx qc)
  case Nil
  show ?case by simp
next
  case (Cons k ks)
  have k: "k \<in> {''RX'', ''RY'', ''RZ''}" and ks: "set ks \<subseteq> {''RX'', ''RY'', ''RZ''}"
    using Cons.prems(1) by simp_all
  let ?idx = "if rep then idx else idx + nat n"
  let ?layer = "map (\<lambda>j. (rotation k (Elem nm (if rep then j else idx + j)), [j])) [0..<nat n]"
  let ?qc = "qc\<lparr>data := data qc @ ?layer\<rparr>"
  have b1: "if rep then nat n \<le> nat len else idx + nat n \<le> nat len"
    using Cons.prems(3) by (auto split: if_splits intro: le_trans [rotated])
  have first: "angle_qubits rep (ParameterVector nm len) (PStr k) (range_py n) (idx, qc) =
      Inr (?idx, ?qc)"
    by (rule angle_layer_data [OF k Cons.prems(2) b1])
  have b2: "if rep then nat n \<le> nat len else ?idx + nat n * length ks \<le> nat len"
    using Cons.prems(3) by (simp split: if_splits)
  have rest: "angle_layers rep (ParameterVector nm len) n (map PStr ks) (?idx, ?qc) =
     Inr (if rep then ?idx else ?idx + nat n * length ks,
          ?qc\<lparr>data := data ?qc @
            concat (map (\<lambda>(l, k).
                map (\<lambda>j. (rotation k (Elem nm (if rep then j else ?idx + l * nat n + j)), [j]))
                  [0..<nat n])
              (enumerate 0 ks))\<rparr>)"
    using ks Cons.prems(2) b2 by (intro Cons.IH) simp_all
  have shift: "map (\<lambda>(l, k).
        map (\<lambda>j. (rotation k (Elem nm (if rep then j else idx + l * nat n + j)), [j]))
          [0..<nat n]) (enumerate (Suc 0) ks) =
      map (\<lambda>(l, k).
        map (\<lambda>j. (rotation k (Elem nm (if rep then j else ?idx + l * nat n + j)), [j]))
          [0..<nat n]) (enumerate 0 ks)"
    by (simp add: enumerate_Suc_eq [of 0] case_prod_beta add.assoc)
  show ?case
    unfolding list.map angle_layers.simps first bind_err_Inr rest
    by (simp add: shift [symmetric])
qed


lemma AngleEmbedding_valid:
  assumes "set ks \<subseteq> {''RX'', ''RY'', ''RZ''}" and "0 < n"
  shows "AngleEmbedding (PList (map PStr ks)) n rep =
     Inr \<lparr>angle_gate_sequence = map PStr ks, angle_num_qubits = n,
          angle_repeat_parameters = rep\<rparr>"
proof -
  have strs: "list_all is_str (map PStr ks)"
    by (simp add: list_all_iff)
  have valid: "\<not> list_ex (\<lambda>gate. gate \<notin> valid_gates) (map PStr ks)"
    using assms(1) by (auto simp add: list_ex_iff valid_gates_def)
  show ?thesis using assms(2) strs valid by simp
qed

lemma angle_layer_sequence_eq:
  assumes "set ks \<subseteq> {''RX'', ''RY'', ''RZ''}" and "0 < n"
  shows "angle_layer_sequence \<lparr>angle_gate_sequence = map PStr ks, angle_num_qubits = n,
          angle_repeat_parameters = rep\<rparr> =
     Inr \<lparr>qc_num_qubits = nat n,
          data = concat (map (\<lambda>(l, k).
              map (\<lambda>j. (rotation k (Elem ''x'' (if rep then j else l * nat n + j)), [j]))
                [0..<nat n])
            (enumerate 0 ks))\<rparr>"
proof -
  let ?len = "if rep then n else n * int (length ks)"
  let ?qc0 = "\<lparr>qc_num_qubits = nat n, data = []\<rparr>"
  have b: "if rep then nat n \<le> nat ?len else 0 + nat n * length ks \<le> nat ?len"
    using assms(2) by (simp add: nat_mult_distrib)
  have loops: "angle_layers rep (ParameterVector ''x'' ?len) n (map PStr ks) (0, ?qc0) =
     Inr (if rep then 0 else 0 + nat n * length ks,
          ?qc0\<lparr>data := data ?qc0 @
            concat (map (\<lambda>(l, k).
                map (\<lambda>j. (rotation k (Elem ''x'' (if rep then j else 0 + l * nat n + j)), [j]))
                  [0..<nat n])
              (enumerate 0 ks))\<rparr>)"
    by (rule angle_layers_data [OF assms(1) _ b]) simp
  have qc: "QuantumCircuit n = Inr ?qc0"
    using assms(2) by (simp add: QuantumCircuit_def)
  show ?thesis
  proof (cases rep)
    case True
    with loops show ?thesis
      by (simp add: angle_layer_sequence_def Let_def qc)
  next
    case False
    with loops show ?thesis
      by (simp add: angle_layer_sequence_def Let_def qc)
  qed
qed

section \<open>Lists built layer by layer\<close>

lemma length_concat_uniform:
  "\<forall>xs \<in> set xss. length xs = N \<Longrightarrow> length (concat xss) = N * length xss"
  by (induction xss) simp_all

lemma nth_concat_uniform:
  "\<forall>xs \<in> set xss. length xs = N \<Longrightarrow> l < length xss \<Longrightarrow> j < N \<Longrightarrow>
   concat xss ! (l * N + j) = xss ! l ! j"
proof (induction xss arbitrary: l)
  case Nil
  then show ?case by simp
next
  case (Cons xs xss)
  show ?case
  proof (cases l)
    case 0
    with Cons.prems show ?thesis by (simp add: nth_append)
  next
    case (Suc l')
    have "concat (xs # xss) ! (l * N + j) = concat xss ! (l' * N + j)"
      using Cons.prems(1) Suc by (simp add: nth_append)
    also have "\<dots> = xss ! l' ! j"
      using Cons.prems Suc by (intro Cons.IH) simp_all
    finally show ?thesis using Suc by simp
  qed
qed

lemma layered_length:
  "length (concat (map (\<lambda>(l, k). map (F l k) [0..<N]) (enumerate 0 ks))) = N * length ks"
proof -
  let ?xss = "map (\<lambda>(l, k). map (F l k) [0..<N]) (enumerate 0 ks)"
  have u: "\<forall>xs \<in> set ?xss. length xs = N" by (auto simp add: case_prod_beta)
  then have "length (concat ?xss) = N * length ?xss" by (rule length_concat_uniform)
  then show ?thesis by simp
qed

lemma layered_nth:
  assumes "l < length ks" and "j < N"
  shows "concat (map (\<lambda>(l, k). map (F l k) [0..<N]) (enumerate 0 ks)) ! (l * N + j) =
     F l (ks ! l) j"
proof -
  let ?xss = "map (\<lambda>(l, k). map (F l k) [0..<N]) (enumerate 0 ks)"
  have u: "\<forall>xs \<in> set ?xss. length xs = N" by (auto simp add: case_prod_beta)
  have "concat ?xss ! (l * N + j) = ?xss ! l ! j"
    using assms by (intro nth_concat_uniform [OF u]) simp_all
  also have "\<dots> = F l (ks ! l) j"
    using assms by (simp add: nth_enumerate_eq)
  finally show ?thesis .
qed

lemma layered_fresh_indices:
  "concat (map (\<lambda>(l, k). map (\<lambda>j. l * N + j) [0..<N]) (enumerate 0 ks)) = [0..<N * length ks]"
proof (induction ks rule: rev_induct)
  case Nil
  show ?case by simp
next
  case (snoc k ks)
  have block: "map (\<lambda>j. length ks * N + j) [0..<N] = [N * length ks..<N * length ks + N]"
    by (rule nth_equalityI) (simp_all add: mult.commute)
  have split: "[0..<N * length ks + N] = [0..<N * length ks] @ [N * length ks..<N * length ks + N]"
    by (rule upt_add_eq_append) simp
  have "N * length (ks @ [k]) = N * length ks + N" by simp
  then show ?case
    using snoc.IH by (simp only: split) (simp add: enumerate_append_eq block)
qed

lemma layered_repeated_indices:
  assumes "ks \<noteq> []"
  shows "set (concat (map (\<lambda>(l, k). map (\<lambda>j. j) [0..<N]) (enumerate 0 ks))) = {0..<N}"
proof -
  obtain k ks' where "ks = k # ks'" using assms by (cases ks) auto
  then show ?thesis by simp
qed

lemma param_indices_layered:
  "param_indices \<lparr>qc_num_qubits = M,
      data = concat (map (\<lambda>(l, k).
          map (\<lambda>j. (rotation k (Elem nm (G l j)), [j])) [0..<N]) (enumerate 0 ks))\<rparr> =
   concat (map (\<lambda>(l, k). map (G l) [0..<N]) (enumerate 0 ks))"
proof -
  have one: "\<And>l k. concat (map ((\<lambda>(g, qargs). concat (map elem_index (params g))) \<circ>
        (\<lambda>j. (rotation k (Elem nm (G l j)), [j]))) [0..<N]) = map (G l) [0..<N]"
    by (induction N) (simp_all add: rotation_def)
  show ?thesis
    unfolding param_indices_def
    by (induction ks rule: rev_induct) (simp_all add: enumerate_append_eq one)
qed

section \<open>AngleEmbedding: the circuit and the constructor\<close>

text \<open>
  C1. For every valid configuration (a non-empty gate sequence of strings among RX, RY, RZ,
  a positive \<open>num_qubits\<close>, either value of \<open>repeat_parameters\<close>) the Angle scheme is
  constructed and \<open>_layer_sequence\<close> returns a circuit of exactly
  \<open>num_qubits * len(gate_sequence)\<close> instructions in layer-major, qubit-minor order: the
  instruction at position \<open>l * num_qubits + j\<close> is the rotation of layer \<open>l\<close> on qubit
  \<open>j\<close>, with parameter \<open>x[j]\<close> when repeating and \<open>x[l * num_qubits + j]\<close> otherwise.
  Without repetition the indices used are \<open>0, 1, ..., num_qubits * len(gate_sequence) - 1\<close>,
  each once; with repetition they are exactly the \<open>num_qubits\<close> indices below
  \<open>num_qubits\<close>.
\<close>

theorem angle_layer_sequence_shape:
  assumes "ks \<noteq> []" and "set ks \<subseteq> {''RX'', ''RY'', ''RZ''}" and "0 < n"
  shows "\<exists>e c. AngleEmbedding (PList (map PStr ks)) n rep = Inr e
      \<and> angle_layer_sequence e = Inr c
      \<and> qc_num_qubits c = nat n
      \<and> length (data c) = nat n * length ks
      \<and> (\<forall>l < length ks. \<forall>j < nat n.
            data c ! (l * nat n + j) =
              (rotation (ks ! l) (Elem ''x'' (if rep then j else l * nat n + j)), [j]))
      \<and> (\<not> rep \<longrightarrow> param_indices c = [0..<nat n * length ks])
      \<and> (rep \<longrightarrow> set (param_indices c) = {0..<nat n} \<and> card (set (param_indices c)) = nat n)"
proof -
  let ?e = "\<lparr>angle_gate_sequence = map PStr ks, angle_num_qubits = n,
             angle_repeat_parameters = rep\<rparr>"
  let ?F = "\<lambda>l k j. (rotation k (Elem ''x'' (if rep then j else l * nat n + j)), [j])"
  let ?ops = "concat (map (\<lambda>(l, k). map (?F l k) [0..<nat n]) (enumerate 0 ks))"
  let ?c = "\<lparr>qc_num_qubits = nat n, data = ?ops\<rparr>"
  have init: "AngleEmbedding (PList (map PStr ks)) n rep = Inr ?e"
    by (rule AngleEmbedding_valid [OF assms(2,3)])
  have run: "angle_layer_sequence ?e = Inr ?c"
    by (rule angle_layer_sequence_eq [OF assms(2,3)])
  have len: "length (data ?c) = nat n * length ks"
    by (simp add: layered_length)
  have nth: "\<forall>l < length ks. \<forall>j < nat n. data ?c ! (l * nat n + j) = ?F l (ks ! l) j"
    by (simp add: layered_nth)
  have idx: "param_indices ?c =
      concat (map (\<lambda>(l, k). map (\<lambda>j. if rep then j else l * nat n + j) [0..<nat n])
        (enumerate 0 ks))"
    by (rule param_indices_layered)
  have fresh: "\<not> rep \<longrightarrow> param_indices ?c = [0..<nat n * length ks]"
    unfolding idx by (simp add: layered_fresh_indices)
  have shared: "rep \<longrightarrow> set (param_indices ?c) = {0..<nat n}"
    unfolding idx using layered_repeated_indices [OF assms(1), of "nat n"] by simp
  then have card: "rep \<longrightarrow> card (set (param_indices ?c)) = nat n"
    by simp
  have "qc_num_qubits ?c = nat n" by simp
  with init run len nth fresh shared card show ?thesis by blast
qed

theorem angle_layer_sequence_shape_witness:
  "[''RY'', ''RZ'', ''RX''] \<noteq> [] \<and> set [''RY'', ''RZ'', ''RX''] \<subseteq> {''RX'', ''RY'', ''RZ''}
   \<and> (0::int) < 2
   \<and> (\<exists>e c. AngleEmbedding (PList [PStr ''RY'', PStr ''RZ'', PStr ''RX'']) 2 False = Inr e
        \<and> angle_layer_sequence e = Inr c
        \<and> length (data c) = 6
        \<and> data c ! 0 = (\<lparr>gname = ''ry'', gnum_qubits = 1, params = [Elem ''x'' 0]\<rparr>, [0])
        \<and> data c ! 1 = (\<lparr>gname = ''ry'', gnum_qubits = 1, params = [Elem ''x'' 1]\<rparr>, [1])
        \<and> data c ! 2 = (\<lparr>gname = ''rz'', gnum_qubits = 1, params = [Elem ''x'' 2]\<rparr>, [0])
        \<and> data c ! 3 = (\<lparr>gname = ''rz'', gnum_qubits = 1, params = [Elem ''x'' 3]\<rparr>, [1])
        \<and> data c ! 4 = (\<lparr>gname = ''rx'', gnum_qubits = 1, params = [Elem ''x'' 4]\<rparr>, [0])
        \<and> data c ! 5 = (\<lparr>gname = ''rx'', gnum_qubits = 1, params = [Elem ''x'' 5]\<rparr>, [1])
        \<and> param_indices c = [0..<6])
   \<and> (\<exists>e c. AngleEmbedding (PList [PStr ''RY'', PStr ''RZ'', PStr ''RX'']) 2 True = Inr e
        \<and> angle_layer_sequence e = Inr c
        \<and> length (data c) = 6
        \<and> data c ! 2 = (\<lparr>gname = ''rz'', gnum_qubits = 1, params = [Elem ''x'' 0]\<rparr>, [0])
        \<and> data c ! 5 = (\<lparr>gname = ''rx'', gnum_qubits = 1, params = [Elem ''x'' 1]\<rparr>, [1])
        \<and> set (param_indices c) = {0..<2})"
proof -
  let ?ks = "[''RY'', ''RZ'', ''RX'']"
  have h1: "?ks \<noteq> []" by simp
  have h2: "set ?ks \<subseteq> {''RX'', ''RY'', ''RZ''}" by simp
  have h3: "(0::int) < 2" by simp
  obtain e c where f:
    "AngleEmbedding (PList (map PStr ?ks)) 2 False = Inr e"
    "angle_layer_sequence e = Inr c"
    "length (data c) = nat 2 * length ?ks"
    "\<forall>l < length ?ks. \<forall>j < nat 2.
       data c ! (l * nat 2 + j) =
         (rotation (?ks ! l) (Elem ''x'' (if False then j else l * nat 2 + j)), [j])"
    "\<not> False \<longrightarrow> param_indices c = [0..<nat 2 * length ?ks]"
    using angle_layer_sequence_shape [OF h1 h2 h3, of False] by blast
  obtain e' c' where t:
    "AngleEmbedding (PList (map PStr ?ks)) 2 True = Inr e'"
    "angle_layer_sequence e' = Inr c'"
    "length (data c') = nat 2 * length ?ks"
    "\<forall>l < length ?ks. \<forall>j < nat 2.
       data c' ! (l * nat 2 + j) =
         (rotation (?ks ! l) (Elem ''x'' (if True then j else l * nat 2 + j)), [j])"
    "True \<longrightarrow> set (param_indices c') = {0..<nat 2} \<and> card (set (param_indices c')) = nat 2"
    using angle_layer_sequence_shape [OF h1 h2 h3, of True] by blast
  have f00: "data c ! 0 = (\<lparr>gname = ''ry'', gnum_qubits = 1, params = [Elem ''x'' 0]\<rparr>, [0])"
    using f(4) [rule_format, of 0 0] by (simp add: rotation_def)
  have f01: "data c ! 1 = (\<lparr>gname = ''ry'', gnum_qubits = 1, params = [Elem ''x'' 1]\<rparr>, [1])"
    using f(4) [rule_format, of 0 1] by (simp add: rotation_def)
  have f10: "data c ! 2 = (\<lparr>gname = ''rz'', gnum_qubits = 1, params = [Elem ''x'' 2]\<rparr>, [0])"
    using f(4) [rule_format, of 1 0] by (simp add: rotation_def)
  have f11: "data c ! 3 = (\<lparr>gname = ''rz'', gnum_qubits = 1, params = [Elem ''x'' 3]\<rparr>, [1])"
    using f(4) [rule_format, of 1 1] by (simp add: rotation_def)
  have f20: "data c ! 4 = (\<lparr>gname = ''rx'', gnum_qubits = 1, params = [Elem ''x'' 4]\<rparr>, [0])"
    using f(4) [rule_format, of 2 0] by (simp add: rotation_def)
  have f21: "data c ! 5 = (\<lparr>gname = ''rx'', gnum_qubits = 1, params = [Elem ''x'' 5]\<rparr>, [1])"
    using f(4) [rule_format, of 2 1] by (simp add: rotation_def)
  have t10: "data c' ! 2 = (\<lparr>gname = ''rz'', gnum_qubits = 1, params = [Elem ''x'' 0]\<rparr>, [0])"
    using t(4) [rule_format, of 1 0] by (simp add: rotation_def)
  have t21: "data c' ! 5 = (\<lparr>gname = ''rx'', gnum_qubits = 1, params = [Elem ''x'' 1]\<rparr>, [1])"
    using t(4) [rule_format, of 2 1] by (simp add: rotation_def)
  have fl: "length (data c) = 6" and fi: "param_indices c = [0..<6]"
    using f(3,5) by simp_all
  have tl: "length (data c') = 6" and ti: "set (param_indices c') = {0..<2}"
    using t(3,5) by simp_all
  have fe: "AngleEmbedding (PList [PStr ''RY'', PStr ''RZ'', PStr ''RX'']) 2 False = Inr e"
    using f(1) by simp
  have te: "AngleEmbedding (PList [PStr ''RY'', PStr ''RZ'', PStr ''RX'']) 2 True = Inr e'"
    using t(1) by simp
  from h1 h2 h3 fe f(2) fl f00 f01 f10 f11 f20 f21 fi te t(2) tl t10 t21 ti
  show ?thesis by blast
qed

text \<open>
  C8, as stated, fails: the constructor accepts the empty gate sequence (with one qubit),
  and \<open>_layer_sequence\<close> then returns a circuit without instructions.
\<close>

theorem angle_accepts_empty_sequence:
  "AngleEmbedding (PList []) 1 False =
     Inr \<lparr>angle_gate_sequence = [], angle_num_qubits = 1, angle_repeat_parameters = False\<rparr>
   \<and> bind_err (AngleEmbedding (PList []) 1 False) angle_layer_sequence =
     Inr \<lparr>qc_num_qubits = 1, data = []\<rparr>"
  by (simp add: angle_layer_sequence_def QuantumCircuit_def)

text \<open>
  C8, amended. A \<open>gate_sequence\<close> that is not a list of strings each among RX, RY, RZ (in
  particular one that holds another gate kind) makes the constructor fail with
  \<open>QiskitError\<close>, whatever the other arguments, and no circuit is produced. The empty
  list is not refused: with it the constructor fails only on a non-positive
  \<open>num_qubits\<close>.
\<close>

theorem angle_rejects_invalid_sequence:
  assumes "\<not> list_of_valid_gates v"
  shows "(\<exists>msg. AngleEmbedding v n rep = Inl (QiskitError msg)
           \<and> bind_err (AngleEmbedding v n rep) angle_layer_sequence = Inl (QiskitError msg))
       \<and> AngleEmbedding (PList []) n rep =
           (if n \<le> 0 then Inl (QiskitError ''num_qubits must be a positive integer.'')
            else Inr \<lparr>angle_gate_sequence = [], angle_num_qubits = n,
                      angle_repeat_parameters = rep\<rparr>)"
proof -
  have fails: "\<exists>msg. AngleEmbedding v n rep = Inl (QiskitError msg)"
  proof (cases v)
    case (PList gate_sequence)
    with assms have "\<not> list_all (\<lambda>gate. gate \<in> valid_gates) gate_sequence" by simp
    then have "list_ex (\<lambda>gate. gate \<notin> valid_gates) gate_sequence"
      by (simp add: list_all_iff list_ex_iff)
    with PList show ?thesis by simp
  qed simp_all
  then obtain msg where m: "AngleEmbedding v n rep = Inl (QiskitError msg)" ..
  then have "bind_err (AngleEmbedding v n rep) angle_layer_sequence = Inl (QiskitError msg)"
    by simp
  with m show ?thesis by simp
qed

theorem angle_rejects_invalid_sequence_witness:
  "\<not> list_of_valid_gates (PList [PStr ''RY'', PStr ''H''])
   \<and> (\<exists>msg. AngleEmbedding (PList [PStr ''RY'', PStr ''H'']) 2 False = Inl (QiskitError msg))
   \<and> AngleEmbedding (PList [PStr ''RY'', PStr ''H'']) 2 False =
       Inl (QiskitError ''gate_sequence contains invalid gates.'')"
proof -
  have h: "\<not> list_of_valid_gates (PList [PStr ''RY'', PStr ''H''])"
    by (simp add: valid_gates_def)
  have "AngleEmbedding (PList [PStr ''RY'', PStr ''H'']) 2 False =
       Inl (QiskitError ''gate_sequence contains invalid gates.'')"
    by (simp add: valid_gates_def)
  with h angle_rejects_invalid_sequence [OF h, of 2 False] show ?thesis by blast
qed

end
